theory Spec2Isabelle
  imports Complex_Main
begin

section \<open>Events, plugins and the hook protocol\<close>

text \<open>
  JavaScript numbers are modelled by the reals: finite doubles without rounding. The
  non-finite values (NaN, the infinities) are not represented; they can only arise in the
  anchor computation of a pointer-down whose measured inverse scale is zero, and no
  statement below depends on the value of an anchor.

  What a handler reads from the browser while it runs (the clock, DOM geometry, pointer
  capture) is carried by the event record, next to the fields of the \<open>PointerEvent\<close>.
\<close>

type_synonym node = nat
type_synonym js_error = string

record pointer_event =
  button :: int
  clientX :: real
  clientY :: real
  pointerId :: int
  date_now :: real                  \<comment> \<open>\<open>Date.now()\<close> when the listener runs\<close>
  target_contained :: bool          \<comment> \<open>\<open>ctx.currentlyDraggedNode.contains(e.target)\<close>\<close>
  inverse_scale :: real             \<comment> \<open>layout width / rendered width, as measured\<close>
  composedPath :: "(node \<times> bool) list"
    \<comment> \<open>the propagation path; the flag says the entry is an element node other than an
        svg root element\<close>
  set_capture_throws :: "js_error option"    \<comment> \<open>outcome of \<open>setPointerCapture\<close>\<close>

text \<open>The four hooks that \<open>run_plugins\<close> dispatches, and the phases of \<open>ErrorInfo\<close>.\<close>

datatype hook_name = ShouldDrag | DragStart | Drag | DragEnd

datatype phase = Setup | During hook_name

text \<open>
  A hook receives the context, its private state and the event. Through the context it
  can read the getters and call \<open>propose\<close>, \<open>cancel\<close>, \<open>effect\<close> (and
  \<open>preventStart\<close> in the delegated engine), in any order and any number of times; it
  can mutate its private state object in place; it returns a value or throws. As the hook
  is deterministic and knows what it wrote itself, its whole run is a function of what it
  was given: the list of context calls it made, in order, the mutation of its private
  state, and how it ended. An effect is a closure; the model is parametric in a type of
  closure identities and records which closures were executed, in order.
\<close>

datatype 'e action = Propose "real option" "real option" | Cancel | Effect 'e | PreventStart

datatype hook_ret = RetFalse | RetOther | Threw js_error

record ctx_view =
  v_proposed_x :: "real option"
  v_proposed_y :: "real option"
  v_delta_x :: real
  v_delta_y :: real
  v_offset_x :: real
  v_offset_y :: real
  v_initial :: "(real \<times> real) option"  \<comment> \<open>\<open>ctx.initial\<close>; only the delegated context has it\<close>
  v_lastEvent :: "pointer_event option"   \<comment> \<open>\<open>ctx.lastEvent\<close>; delegated context only\<close>
  v_isDragging :: bool
  v_isInteracting :: bool
  v_rootNode :: node

record ('ps, 'e) hook_out =
  acts :: "'e action list"
  state_after :: "'ps \<Rightarrow> 'ps"   \<comment> \<open>in-place mutation of the private state object\<close>
  ret :: hook_ret

record ('ps, 'e) setup_out =
  setup_acts :: "'e action list"
  setup_value :: "'ps option"      \<comment> \<open>the returned state when truthy, else \<open>None\<close>\<close>
  setup_threw :: "js_error option"

type_synonym ('ps, 'e) hook = "ctx_view \<Rightarrow> 'ps option \<Rightarrow> pointer_event \<Rightarrow> ('ps, 'e) hook_out"

text \<open>
  \<open>ident\<close> stands for the identity of the plugin object (JavaScript compares plugins by
  reference in \<open>update_plugin\<close>); two registrations under one name are two objects.
\<close>

record ('ps, 'e) plugin =
  ident :: nat
  name :: string
  priority :: "real option"
  liveUpdate :: bool
  cancelable :: "bool option"
  setup_hook :: "(ctx_view \<Rightarrow> ('ps, 'e) setup_out) option"
  shouldDrag :: "('ps, 'e) hook option"
  dragStart :: "('ps, 'e) hook option"
  drag :: "('ps, 'e) hook option"
  dragEnd :: "('ps, 'e) hook option"
  cleanup :: "(ctx_view \<Rightarrow> 'ps option \<Rightarrow> ('ps, 'e) hook_out) option"

text \<open>\<open>plugin.priority ?? 0\<close> and \<open>plugin[hook]\<close>.\<close>

definition prio :: "('ps, 'e) plugin \<Rightarrow> real" where
  "prio p = (case priority p of None \<Rightarrow> 0 | Some v \<Rightarrow> v)"

fun handler_of :: "hook_name \<Rightarrow> ('ps, 'e) plugin \<Rightarrow> ('ps, 'e) hook option" where
  "handler_of ShouldDrag p = shouldDrag p"
| "handler_of DragStart p = dragStart p"
| "handler_of Drag p = drag p"
| "handler_of DragEnd p = dragEnd p"

text \<open>
  A JavaScript \<open>Map\<close> keeps the position of a key's first insertion when the key is set
  again, and a \<open>Set\<close> ignores the insertion of a member it already has; both iterate in
  insertion order.
\<close>

fun map_set :: "string \<Rightarrow> 'v \<Rightarrow> (string \<times> 'v) list \<Rightarrow> (string \<times> 'v) list" where
  "map_set k v [] = [(k, v)]"
| "map_set k v ((k', v') # m) = (if k = k' then (k, v) # m else (k', v') # map_set k v m)"

definition set_add :: "'e \<Rightarrow> 'e list \<Rightarrow> 'e list" where
  "set_add f fs = (if f \<in> set fs then fs else fs @ [f])"

text \<open>\<open>v ?? 0\<close> on a nullable number.\<close>

definition or_zero :: "real option \<Rightarrow> real" where
  "or_zero v = (case v of None \<Rightarrow> 0 | Some r \<Rightarrow> r)"

datatype notification = Neodrag_start real real | Neodrag real real | Neodrag_end real real

datatype run_result = Ran bool | Uncaught js_error


section \<open>The single-instance engine (\<open>draggable\<close>)\<close>

text \<open>
  The closure variables of \<open>draggable\<close> as a record. \<open>effects_run\<close>, \<open>hook_calls\<close> and
  \<open>notifications\<close> are histories: the effect closures executed, the hooks invoked (by
  plugin object and phase) and the custom events dispatched, each in order. The engine
  has no exception handler: a hook that throws ends the listener at that point, with the
  writes made so far; the listeners return the escaping error, if any, with the state.
\<close>

record ('ps, 'e) engine =
  ordered_plugins :: "('ps, 'e) plugin list"
  threshold_delay :: real
  threshold_distance :: real
  root :: node
  is_interacting :: bool
  is_dragging :: bool
  start_time :: real
  meets_time_threshold :: bool
  meets_distance_threshold :: bool
  x_offset :: real
  y_offset :: real
  initial_x :: real
  initial_y :: real
  proposals_x :: "real option"
  proposals_y :: "real option"
  hook_cancelled :: bool        \<comment> \<open>the variable \<open>current_drag_hook_cancelled\<close> of \<open>draggable\<close>\<close>
  delta_x :: real
  delta_y :: real
  effects_to_run :: "'e list"
  private_states :: "string \<Rightarrow> 'ps option"
  effects_run :: "'e list"
  hook_calls :: "(nat \<times> phase) list"
  notifications :: "notification list"

definition ctx :: "('ps, 'e) engine \<Rightarrow> ctx_view" where
  "ctx s = \<lparr> v_proposed_x = proposals_x s, v_proposed_y = proposals_y s,
             v_delta_x = delta_x s, v_delta_y = delta_y s,
             v_offset_x = x_offset s, v_offset_y = y_offset s,
             v_initial = None, v_lastEvent = None,
             v_isDragging = is_dragging s, v_isInteracting = is_interacting s,
             v_rootNode = root s \<rparr>"

text \<open>
  The context's methods. The single-instance context has no \<open>preventStart\<close>; a hook
  written for it does not call one (calling it would be a throw of the hook).
\<close>

fun ctx_call :: "'e action \<Rightarrow> ('ps, 'e) engine \<Rightarrow> ('ps, 'e) engine" where
  "ctx_call (Propose x y) s = s\<lparr>proposals_x := x, proposals_y := y\<rparr>"
| "ctx_call Cancel s = s\<lparr>hook_cancelled := True\<rparr>"
| "ctx_call (Effect f) s = s\<lparr>effects_to_run := set_add f (effects_to_run s)\<rparr>"
| "ctx_call PreventStart s = s"

definition ctx_calls :: "'e action list \<Rightarrow> ('ps, 'e) engine \<Rightarrow> ('ps, 'e) engine" where
  "ctx_calls as s = fold ctx_call as s"

definition flush_effects :: "('ps, 'e) engine \<Rightarrow> ('ps, 'e) engine" where
  "flush_effects s = s\<lparr>effects_run := effects_run s @ effects_to_run s, effects_to_run := []\<rparr>"

definition clear_effects :: "('ps, 'e) engine \<Rightarrow> ('ps, 'e) engine" where
  "clear_effects s = s\<lparr>effects_to_run := []\<rparr>"

text \<open>\<open>handler(ctx, private_states.get(plugin.name), event)\<close>\<close>

definition call_handler ::
  "('ps, 'e) plugin \<Rightarrow> hook_name \<Rightarrow> ('ps, 'e) hook \<Rightarrow> pointer_event \<Rightarrow> ('ps, 'e) engine
     \<Rightarrow> hook_ret \<times> ('ps, 'e) engine" where
  "call_handler p h f e s =
     (let out = f (ctx s) (private_states s (name p)) e;
          s1 = ctx_calls (acts out) (s\<lparr>hook_calls := hook_calls s @ [(ident p, During h)]\<rparr>)
      in (ret out,
          s1\<lparr>private_states :=
                (private_states s1)(name p := map_option (state_after out) (private_states s1 (name p)))\<rparr>))"

text \<open>The loop of \<open>run_plugins\<close>, over the plugins still to visit.\<close>

fun run_plugins_loop ::
  "('ps, 'e) plugin list \<Rightarrow> hook_name \<Rightarrow> pointer_event \<Rightarrow> ('ps, 'e) engine
     \<Rightarrow> run_result \<times> ('ps, 'e) engine" where
  "run_plugins_loop [] h e s = (Ran True, s)"
| "run_plugins_loop (p # ps) h e s =
     (case handler_of h p of
        None \<Rightarrow> run_plugins_loop ps h e s
      | Some f \<Rightarrow>
          (case call_handler p h f e s of
             (Threw err, s1) \<Rightarrow> (Uncaught err, s1)
           | (RetFalse, s1) \<Rightarrow> (Ran False, s1)
           | (RetOther, s1) \<Rightarrow>
               if hook_cancelled s1 then (Ran False, s1\<lparr>hook_cancelled := False\<rparr>)
               else run_plugins_loop ps h e s1))"

definition run_plugins ::
  "hook_name \<Rightarrow> pointer_event \<Rightarrow> ('ps, 'e) engine \<Rightarrow> run_result \<times> ('ps, 'e) engine" where
  "run_plugins h e s = run_plugins_loop (ordered_plugins s) h e s"

definition reset_state :: "('ps, 'e) engine \<Rightarrow> ('ps, 'e) engine" where
  "reset_state s =
     clear_effects (s\<lparr>is_dragging := False, meets_time_threshold := False,
                      meets_distance_threshold := False\<rparr>)"

definition call_event :: "notification \<Rightarrow> ('ps, 'e) engine \<Rightarrow> ('ps, 'e) engine" where
  "call_event n s = s\<lparr>notifications := notifications s @ [n]\<rparr>"

definition try_start_drag ::
  "pointer_event \<Rightarrow> ('ps, 'e) engine \<Rightarrow> js_error option \<times> ('ps, 'e) engine" where
  "try_start_drag e s =
     (if is_interacting s \<and> \<not> is_dragging s \<and> meets_distance_threshold s
         \<and> meets_time_threshold s
      then (case run_plugins DragStart e (s\<lparr>delta_x := 0, delta_y := 0\<rparr>) of
              (Uncaught err, s1) \<Rightarrow> (Some err, s1)
            | (Ran False, s1) \<Rightarrow> (None, clear_effects s1)
            | (Ran True, s1) \<Rightarrow>
                (let s2 = (flush_effects s1)\<lparr>is_dragging := True\<rparr>
                 in (None, call_event (Neodrag_start (initial_x s2) (initial_y s2)) s2)))
      else (None, s))"

definition pointerdown ::
  "pointer_event \<Rightarrow> ('ps, 'e) engine \<Rightarrow> js_error option \<times> ('ps, 'e) engine" where
  "pointerdown e s =
     (if button e = 2 then (None, s)
      else (case run_plugins ShouldDrag e s of
              (Uncaught err, s1) \<Rightarrow> (Some err, s1)
            | (Ran False, s1) \<Rightarrow> (None, s1)
            | (Ran True, s1) \<Rightarrow>
                if \<not> target_contained e then (None, s1)
                else
                  (let s2 = s1\<lparr>is_interacting := True, start_time := date_now e\<rparr>;
                       s3 = (if threshold_delay s2 = 0 then s2\<lparr>meets_time_threshold := True\<rparr>
                             else s2);
                       s4 = (if proposals_x s3 \<noteq> None
                             then s3\<lparr>initial_x := clientX e - x_offset s3 / inverse_scale e\<rparr>
                             else s3);
                       s5 = (if proposals_y s4 \<noteq> None
                             then s4\<lparr>initial_y := clientY e - y_offset s4 / inverse_scale e\<rparr>
                             else s4)
                   in (None, s5))))"

text \<open>The part of the \<open>pointermove\<close> listener that runs while not yet dragging.\<close>

definition check_thresholds ::
  "pointer_event \<Rightarrow> ('ps, 'e) engine \<Rightarrow> js_error option \<times> ('ps, 'e) engine" where
  "check_thresholds e s =
     (let (r1, s1) =
            (if \<not> meets_time_threshold s \<and> date_now e - start_time s \<ge> threshold_delay s
             then try_start_drag e (s\<lparr>meets_time_threshold := True\<rparr>)
             else (None, s))
      in case r1 of
           Some err \<Rightarrow> (Some err, s1)
         | None \<Rightarrow>
             if \<not> meets_distance_threshold s1 \<and>
                (clientX e - initial_x s1)\<^sup>2 + (clientY e - initial_y s1)\<^sup>2 \<ge> (threshold_distance s1)\<^sup>2
             then try_start_drag e (s1\<lparr>meets_distance_threshold := True\<rparr>)
             else (None, s1))"

text \<open>
  The part of the \<open>pointermove\<close> listener that runs once dragging: the core proposes the
  delta, the \<open>drag\<close> chain runs, and the proposal is committed.
\<close>

definition propose_delta :: "pointer_event \<Rightarrow> ('ps, 'e) engine \<Rightarrow> ('ps, 'e) engine" where
  "propose_delta e s =
     (let dx = clientX e - initial_x s - x_offset s;
          dy = clientY e - initial_y s - y_offset s
      in s\<lparr>delta_x := dx, delta_y := dy, proposals_x := Some dx, proposals_y := Some dy\<rparr>)"

definition drag_step ::
  "pointer_event \<Rightarrow> ('ps, 'e) engine \<Rightarrow> js_error option \<times> ('ps, 'e) engine" where
  "drag_step e s =
     (case run_plugins Drag e (propose_delta e s) of
        (Uncaught err, s1) \<Rightarrow> (Some err, s1)
      | (Ran False, s1) \<Rightarrow> (None, clear_effects s1)
      | (Ran True, s1) \<Rightarrow>
          (let s2 = flush_effects s1;
               final_x = x_offset s2 + or_zero (proposals_x s2);
               final_y = y_offset s2 + or_zero (proposals_y s2);
               s3 = call_event (Neodrag final_x final_y) s2
           in (None, s3\<lparr>x_offset := final_x, y_offset := final_y\<rparr>)))"

definition pointermove ::
  "pointer_event \<Rightarrow> ('ps, 'e) engine \<Rightarrow> js_error option \<times> ('ps, 'e) engine" where
  "pointermove e s =
     (if \<not> is_interacting s then (None, s)
      else if is_dragging s then drag_step e s
      else (case check_thresholds e s of
              (Some err, s1) \<Rightarrow> (Some err, s1)
            | (None, s1) \<Rightarrow> if \<not> is_dragging s1 then (None, s1) else drag_step e s1))"

text \<open>\<open>if (proposals.x) ...\<close>: neither null nor zero.\<close>

definition truthy :: "real option \<Rightarrow> bool" where
  "truthy v = (case v of None \<Rightarrow> False | Some r \<Rightarrow> r \<noteq> 0)"

definition pointerup ::
  "pointer_event \<Rightarrow> ('ps, 'e) engine \<Rightarrow> js_error option \<times> ('ps, 'e) engine" where
  "pointerup e s =
     (if \<not> is_interacting s then (None, s)
      else (case run_plugins DragEnd e s of
              (Uncaught err, s1) \<Rightarrow> (Some err, s1)
            | (Ran b, s1) \<Rightarrow>
                (let s2 = (if truthy (proposals_x s1) then s1\<lparr>initial_x := x_offset s1\<rparr> else s1);
                     s3 = (if truthy (proposals_y s2) then s2\<lparr>initial_y := y_offset s2\<rparr> else s2);
                     s4 = s3\<lparr>proposals_x := Some 0, proposals_y := Some 0\<rparr>;
                     s5 = call_event (Neodrag_end (initial_x s4) (initial_y s4)) s4
                 in (None, reset_state (s5\<lparr>is_interacting := False\<rparr>)))))"

text \<open>
  \<open>draggable(node, options)\<close>. The list \<open>default_plugins\<close> of the source holds four
  built-in plugins (ignore-multitouch, classes, user-select guard, transform) whose hooks
  work on the DOM; here it is a parameter, so that whatever is proved holds for any
  plugins in its place. The duplicate map keeps, for each name, the first registration
  unless a later one has a strictly higher priority; the survivors are sorted by the
  comparator \<open>(a, b) => (a.priority ?? 0) - (b.priority ?? 0)\<close>, and \<open>sort\<close> is stable.
  The setup loop runs over \<open>default_plugins.concat(user_plugins)\<close>.
\<close>

record ('ps, 'e) options =
  default_plugins :: "('ps, 'e) plugin list"
  user_plugins :: "('ps, 'e) plugin list"
  delay :: real
  distance :: real
  opt_node :: node

definition register :: "('ps, 'e) plugin \<Rightarrow> (string \<times> ('ps, 'e) plugin) list \<Rightarrow> (string \<times> ('ps, 'e) plugin) list" where
  "register p m =
     (case map_of m (name p) of
        None \<Rightarrow> map_set (name p) p m
      | Some existing \<Rightarrow> if prio p > prio existing then map_set (name p) p m else m)"

definition plugin_map :: "('ps, 'e) plugin list \<Rightarrow> (string \<times> ('ps, 'e) plugin) list" where
  "plugin_map ps = fold register ps []"

definition sort_ascending :: "('ps, 'e) plugin list \<Rightarrow> ('ps, 'e) plugin list" where
  "sort_ascending ps = sort_key prio ps"

fun setup_loop ::
  "('ps, 'e) plugin list \<Rightarrow> ('ps, 'e) engine \<Rightarrow> js_error option \<times> ('ps, 'e) engine" where
  "setup_loop [] s = (None, s)"
| "setup_loop (p # ps) s =
     (case setup_hook p of
        None \<Rightarrow> setup_loop ps s
      | Some f \<Rightarrow>
          (let out = f (ctx s);
               s1 = ctx_calls (setup_acts out) (s\<lparr>hook_calls := hook_calls s @ [(ident p, Setup)]\<rparr>)
           in case setup_threw out of
                Some err \<Rightarrow> (Some err, s1)
              | None \<Rightarrow>
                  setup_loop ps
                    (case setup_value out of
                       None \<Rightarrow> s1
                     | Some v \<Rightarrow> s1\<lparr>private_states := (private_states s1)(name p \<mapsto> v)\<rparr>)))"

definition initial_engine :: "('ps, 'e) options \<Rightarrow> ('ps, 'e) engine" where
  "initial_engine opts =
     \<lparr> ordered_plugins =
         sort_ascending (map snd (plugin_map (default_plugins opts @ user_plugins opts))),
       threshold_delay = delay opts, threshold_distance = distance opts, root = opt_node opts,
       is_interacting = False, is_dragging = False, start_time = 0,
       meets_time_threshold = False, meets_distance_threshold = False,
       x_offset = 0, y_offset = 0, initial_x = 0, initial_y = 0,
       proposals_x = Some 0, proposals_y = Some 0, hook_cancelled = False,
       delta_x = 0, delta_y = 0, effects_to_run = [], private_states = Map.empty,
       effects_run = [], hook_calls = [], notifications = [] \<rparr>"

definition draggable :: "('ps, 'e) options \<Rightarrow> js_error + ('ps, 'e) engine" where
  "draggable opts =
     (case setup_loop (default_plugins opts @ user_plugins opts) (initial_engine opts) of
        (Some err, s) \<Rightarrow> Inl err
      | (None, s) \<Rightarrow> Inr s)"

text \<open>
  A pointer stream: each event goes to its listener; an error that escapes a listener
  ends that listener only, and the next event finds the state as it was left.
\<close>

datatype pointer = Down pointer_event | Move pointer_event | Up pointer_event

fun listener :: "pointer \<Rightarrow> ('ps, 'e) engine \<Rightarrow> ('ps, 'e) engine" where
  "listener (Down e) s = snd (pointerdown e s)"
| "listener (Move e) s = snd (pointermove e s)"
| "listener (Up e) s = snd (pointerup e s)"

definition listeners :: "pointer list \<Rightarrow> ('ps, 'e) engine \<Rightarrow> ('ps, 'e) engine" where
  "listeners evs s = fold listener evs s"


section \<open>The delegated multi-instance engine (\<open>createDraggable\<close>)\<close>

text \<open>
  A \<open>DraggableInstance\<close> with its context, field by field. \<open>executed\<close>, \<open>invoked\<close> and
  \<open>reported\<close> are histories: the effect closures executed, the hooks invoked and the
  calls of the \<open>onError\<close> callback made on behalf of this instance, each in order.
  Pointer capture itself is DOM state and is not modelled, only \<open>pointer_captured_id\<close>;
  \<open>releasePointerCapture\<close> is called only where \<open>hasPointerCapture\<close> has just answered
  yes, where the DOM does not throw.
\<close>

record error_info =
  err_phase :: phase
  err_plugin :: "(string \<times> phase) option"    \<comment> \<open>\<open>{name, hook}\<close>\<close>
  err_node :: node
  err_error :: js_error

record ('ps, 'e) draggable_instance =
  ctx_proposed_x :: "real option"
  ctx_proposed_y :: "real option"
  ctx_delta_x :: real
  ctx_delta_y :: real
  ctx_offset_x :: real
  ctx_offset_y :: real
  ctx_initial_x :: real
  ctx_initial_y :: real
  ctx_isDragging :: bool
  ctx_isInteracting :: bool
  ctx_rootNode :: node
  ctx_lastEvent :: "pointer_event option"
  root_node :: node
  plugins :: "('ps, 'e) plugin list"
  states :: "string \<Rightarrow> 'ps option"
  dragstart_prevented :: bool
  current_drag_hook_cancelled :: bool
  pointer_captured_id :: "int option"
  effects :: "'e list"
  executed :: "'e list"
  invoked :: "(nat \<times> phase) list"
  reported :: "error_info list"

text \<open>
  The arguments of \<open>createDraggable\<close>: the factory's own plugins and whether an \<open>onError\<close>
  callback was given (the callback is taken to record the error and return).
\<close>

record ('ps, 'e) factory =
  initial_plugins :: "('ps, 'e) plugin list"
  onError :: bool

definition inst_ctx :: "('ps, 'e) draggable_instance \<Rightarrow> ctx_view" where
  "inst_ctx i = \<lparr> v_proposed_x = ctx_proposed_x i, v_proposed_y = ctx_proposed_y i,
                  v_delta_x = ctx_delta_x i, v_delta_y = ctx_delta_y i,
                  v_offset_x = ctx_offset_x i, v_offset_y = ctx_offset_y i,
                  v_initial = Some (ctx_initial_x i, ctx_initial_y i),
                  v_lastEvent = ctx_lastEvent i,
                  v_isDragging = ctx_isDragging i, v_isInteracting = ctx_isInteracting i,
                  v_rootNode = ctx_rootNode i \<rparr>"

fun inst_ctx_call :: "'e action \<Rightarrow> ('ps, 'e) draggable_instance \<Rightarrow> ('ps, 'e) draggable_instance" where
  "inst_ctx_call (Propose x y) i = i\<lparr>ctx_proposed_x := x, ctx_proposed_y := y\<rparr>"
| "inst_ctx_call Cancel i = i\<lparr>current_drag_hook_cancelled := True\<rparr>"
| "inst_ctx_call (Effect f) i = i\<lparr>effects := set_add f (effects i)\<rparr>"
| "inst_ctx_call PreventStart i = i\<lparr>dragstart_prevented := True\<rparr>"

definition inst_ctx_calls :: "'e action list \<Rightarrow> ('ps, 'e) draggable_instance \<Rightarrow> ('ps, 'e) draggable_instance" where
  "inst_ctx_calls as i = fold inst_ctx_call as i"

definition report_error :: "('ps, 'e) factory \<Rightarrow> error_info \<Rightarrow> ('ps, 'e) draggable_instance \<Rightarrow> ('ps, 'e) draggable_instance" where
  "report_error cfg info i = (if onError cfg then i\<lparr>reported := reported i @ [info]\<rparr> else i)"

definition inst_clear_effects :: "('ps, 'e) draggable_instance \<Rightarrow> ('ps, 'e) draggable_instance" where
  "inst_clear_effects i = i\<lparr>effects := []\<rparr>"

definition inst_flush_effects :: "('ps, 'e) draggable_instance \<Rightarrow> ('ps, 'e) draggable_instance" where
  "inst_flush_effects i = inst_clear_effects (i\<lparr>executed := executed i @ effects i\<rparr>)"

text \<open>\<open>handler(instance.ctx, instance.states.get(plugin.name), event)\<close>, inside \<open>resultify\<close>.\<close>

definition inst_call_handler ::
  "('ps, 'e) plugin \<Rightarrow> hook_name \<Rightarrow> ('ps, 'e) hook \<Rightarrow> pointer_event \<Rightarrow> ('ps, 'e) draggable_instance
     \<Rightarrow> hook_ret \<times> ('ps, 'e) draggable_instance" where
  "inst_call_handler p h f e i =
     (let out = f (inst_ctx i) (states i (name p)) e;
          i1 = inst_ctx_calls (acts out) (i\<lparr>invoked := invoked i @ [(ident p, During h)]\<rparr>)
      in (ret out,
          i1\<lparr>states := (states i1)(name p := map_option (state_after out) (states i1 (name p)))\<rparr>))"

fun inst_run_plugins_loop ::
  "('ps, 'e) factory \<Rightarrow> ('ps, 'e) plugin list \<Rightarrow> hook_name \<Rightarrow> pointer_event \<Rightarrow> ('ps, 'e) draggable_instance
     \<Rightarrow> bool \<times> ('ps, 'e) draggable_instance" where
  "inst_run_plugins_loop cfg [] h e i = (True, i)"
| "inst_run_plugins_loop cfg (p # ps) h e i =
     (case handler_of h p of
        None \<Rightarrow> inst_run_plugins_loop cfg ps h e i
      | Some f \<Rightarrow>
          if current_drag_hook_cancelled i \<and> cancelable p \<noteq> Some False
          then inst_run_plugins_loop cfg ps h e i
          else (case inst_call_handler p h f e i of
                  (Threw err, i1) \<Rightarrow>
                    (False,
                     report_error cfg
                       \<lparr> err_phase = During h, err_plugin = Some (name p, During h),
                         err_node = ctx_rootNode i, err_error = err \<rparr> i1)
                | (RetFalse, i1) \<Rightarrow> (False, i1)
                | (RetOther, i1) \<Rightarrow> inst_run_plugins_loop cfg ps h e i1))"

definition inst_run_plugins ::
  "('ps, 'e) factory \<Rightarrow> hook_name \<Rightarrow> pointer_event \<Rightarrow> ('ps, 'e) draggable_instance \<Rightarrow> bool \<times> ('ps, 'e) draggable_instance" where
  "inst_run_plugins cfg h e i =
     inst_run_plugins_loop cfg (plugins i) h e (i\<lparr>dragstart_prevented := False\<rparr>)"

text \<open>
  The body of \<open>handle_pointer_move\<close> from \<open>e.preventDefault()\<close> on: the proposal, the
  \<open>drag\<close> chain and the commit.
\<close>

definition inst_propose_delta :: "pointer_event \<Rightarrow> ('ps, 'e) draggable_instance \<Rightarrow> ('ps, 'e) draggable_instance" where
  "inst_propose_delta e i =
     (let dx = clientX e - ctx_initial_x i - ctx_offset_x i;
          dy = clientY e - ctx_initial_y i - ctx_offset_y i
      in i\<lparr>ctx_delta_x := dx, ctx_delta_y := dy,
            ctx_proposed_x := Some dx, ctx_proposed_y := Some dy\<rparr>)"

definition inst_drag_step ::
  "('ps, 'e) factory \<Rightarrow> pointer_event \<Rightarrow> ('ps, 'e) draggable_instance \<Rightarrow> ('ps, 'e) draggable_instance" where
  "inst_drag_step cfg e i =
     (case inst_run_plugins cfg Drag e (inst_propose_delta e i) of
        (False, i1) \<Rightarrow> inst_clear_effects i1
      | (True, i1) \<Rightarrow>
          (let i2 = inst_flush_effects i1;
               i3 = i2\<lparr>ctx_offset_x := ctx_offset_x i2 + or_zero (ctx_proposed_x i2)\<rparr>
           in i3\<lparr>ctx_offset_y := ctx_offset_y i3 + or_zero (ctx_proposed_y i3)\<rparr>))"

text \<open>
  The lines of \<open>handle_pointer_move\<close> that try to start the drag: the \<open>dragStart\<close> chain,
  then the flush and \<open>isDragging = true\<close>, or the clearing of the effects.
\<close>

definition inst_start_drag ::
  "('ps, 'e) factory \<Rightarrow> pointer_event \<Rightarrow> ('ps, 'e) draggable_instance
     \<Rightarrow> bool \<times> ('ps, 'e) draggable_instance" where
  "inst_start_drag cfg e i =
     (case inst_run_plugins cfg DragStart e i of
        (False, i2) \<Rightarrow> (False, inst_clear_effects i2)
      | (True, i2) \<Rightarrow> (True, (inst_flush_effects i2)\<lparr>ctx_isDragging := True\<rparr>))"

text \<open>The body of \<open>handle_pointer_move\<close> for the instance of the active node.\<close>

definition inst_pointer_move ::
  "('ps, 'e) factory \<Rightarrow> pointer_event \<Rightarrow> ('ps, 'e) draggable_instance \<Rightarrow> ('ps, 'e) draggable_instance" where
  "inst_pointer_move cfg e i =
     (if \<not> ctx_isInteracting i then i
      else
        (let i0 = i\<lparr>ctx_lastEvent := Some e\<rparr>
         in if ctx_isDragging i0 then inst_drag_step cfg e i0
            else
              (let i1 = snd (inst_run_plugins cfg Drag e (i0\<lparr>dragstart_prevented := False\<rparr>))
               in if \<not> dragstart_prevented i1 \<and> \<not> current_drag_hook_cancelled i1
                  then (case inst_start_drag cfg e i1 of
                          (False, i2) \<Rightarrow> i2
                        | (True, i2) \<Rightarrow> inst_drag_step cfg e i2)
                  else i1)))"

text \<open>The body of \<open>handle_pointer_up\<close> for the instance of the active node.\<close>

definition inst_pointer_up ::
  "('ps, 'e) factory \<Rightarrow> pointer_event \<Rightarrow> ('ps, 'e) draggable_instance \<Rightarrow> ('ps, 'e) draggable_instance" where
  "inst_pointer_up cfg e i =
     (if \<not> ctx_isInteracting i then i
      else
        (let i1 = inst_flush_effects (snd (inst_run_plugins cfg DragEnd e i));
             i2 = (if truthy (ctx_proposed_x i1) then i1\<lparr>ctx_initial_x := ctx_offset_x i1\<rparr> else i1);
             i3 = (if truthy (ctx_proposed_y i2) then i2\<lparr>ctx_initial_y := ctx_offset_y i2\<rparr> else i2)
         in inst_clear_effects
              (i3\<lparr>ctx_proposed_x := Some 0, ctx_proposed_y := Some 0,
                  ctx_isInteracting := False, ctx_isDragging := False,
                  dragstart_prevented := False, pointer_captured_id := None\<rparr>)))"


subsection \<open>The registry and the delegated listeners\<close>

text \<open>
  The state of one \<open>createDraggable\<close> closure. Instances are objects: \<open>heap\<close> holds them
  by reference, \<open>instances\<close> is the weak map from a node to the reference of its
  instance, and the \<open>update\<close> and \<open>destroy\<close> closures returned by an attach hold the
  reference itself. A lookup \<open>instances.get(node)!\<close> that finds nothing makes the next
  property access throw a TypeError out of the listener.
\<close>

record ('ps, 'e) manager =
  heap :: "nat \<Rightarrow> ('ps, 'e) draggable_instance option"
  instances :: "node \<Rightarrow> nat option"
  listeners_initialized :: bool
  active_node :: "node option"
  next_ref :: nat

definition instances_get :: "('ps, 'e) manager \<Rightarrow> node \<Rightarrow> (nat \<times> ('ps, 'e) draggable_instance) option" where
  "instances_get m n =
     (case instances m n of
        None \<Rightarrow> None
      | Some r \<Rightarrow> (case heap m r of None \<Rightarrow> None | Some i \<Rightarrow> Some (r, i)))"

definition store :: "nat \<Rightarrow> ('ps, 'e) draggable_instance \<Rightarrow> ('ps, 'e) manager \<Rightarrow> ('ps, 'e) manager" where
  "store r i m = m\<lparr>heap := (heap m)(r \<mapsto> i)\<rparr>"

definition find_draggable_node :: "pointer_event \<Rightarrow> ('ps, 'e) manager \<Rightarrow> node option" where
  "find_draggable_node e m =
     map_option fst (find (\<lambda>(el, is_el). is_el \<and> instances m el \<noteq> None) (composedPath e))"

definition cleanup_active_node :: "('ps, 'e) manager \<Rightarrow> ('ps, 'e) manager" where
  "cleanup_active_node m =
     (case active_node m of
        None \<Rightarrow> m
      | Some n \<Rightarrow>
          (case instances_get m n of
             None \<Rightarrow> m
           | Some (r, i) \<Rightarrow>
               (store r
                  (inst_clear_effects
                     (i\<lparr>ctx_isInteracting := False, ctx_isDragging := False,
                        dragstart_prevented := False, pointer_captured_id := None\<rparr>))
                  m)\<lparr>active_node := None\<rparr>))"

definition handle_pointer_down ::
  "('ps, 'e) factory \<Rightarrow> pointer_event \<Rightarrow> ('ps, 'e) manager \<Rightarrow> js_error option \<times> ('ps, 'e) manager" where
  "handle_pointer_down cfg e m =
     (if button e = 2 then (None, m)
      else
        (case find_draggable_node e m of
           None \<Rightarrow> (None, m)
         | Some n \<Rightarrow>
             (case instances_get m n of
                None \<Rightarrow> (Some ''TypeError'', m)
              | Some (r, i) \<Rightarrow>
                  (case inst_run_plugins cfg ShouldDrag e i of
                     (False, i1) \<Rightarrow> (None, store r i1 m)
                   | (True, i1) \<Rightarrow>
                       (let i2 = i1\<lparr>ctx_isInteracting := True,
                                     pointer_captured_id := Some (pointerId e)\<rparr>;
                            m1 = (store r i2 m)\<lparr>active_node := Some n\<rparr>
                        in case set_capture_throws e of
                             Some err \<Rightarrow>
                               (None,
                                cleanup_active_node
                                  (store r
                                     (report_error cfg
                                        \<lparr> err_phase = During DragStart, err_plugin = None,
                                          err_node = ctx_rootNode i2, err_error = err \<rparr> i2)
                                     m1))
                           | None \<Rightarrow>
                               (let i3 = (if ctx_proposed_x i2 \<noteq> None
                                          then i2\<lparr>ctx_initial_x :=
                                                    clientX e - ctx_offset_x i2 / inverse_scale e\<rparr>
                                          else i2);
                                    i4 = (if ctx_proposed_y i3 \<noteq> None
                                          then i3\<lparr>ctx_initial_y :=
                                                    clientY e - ctx_offset_y i3 / inverse_scale e\<rparr>
                                          else i3)
                                in (None, store r i4 m1)))))))"

definition handle_pointer_move ::
  "('ps, 'e) factory \<Rightarrow> pointer_event \<Rightarrow> ('ps, 'e) manager \<Rightarrow> js_error option \<times> ('ps, 'e) manager" where
  "handle_pointer_move cfg e m =
     (case active_node m of
        None \<Rightarrow> (None, m)
      | Some n \<Rightarrow>
          (case instances_get m n of
             None \<Rightarrow> (Some ''TypeError'', m)
           | Some (r, i) \<Rightarrow> (None, store r (inst_pointer_move cfg e i) m)))"

definition handle_pointer_up ::
  "('ps, 'e) factory \<Rightarrow> pointer_event \<Rightarrow> ('ps, 'e) manager \<Rightarrow> js_error option \<times> ('ps, 'e) manager" where
  "handle_pointer_up cfg e m =
     (case active_node m of
        None \<Rightarrow> (None, m)
      | Some n \<Rightarrow>
          (case instances_get m n of
             None \<Rightarrow> (Some ''TypeError'', m)
           | Some (r, i) \<Rightarrow> (None, store r (inst_pointer_up cfg e i) m)))"

text \<open>
  \<open>initialize_plugins\<close>: a later registration replaces an earlier one of its name when its
  priority is equal or higher; the survivors are sorted by the comparator
  \<open>(a, b) => (b.priority ?? 0) - (a.priority ?? 0)\<close>.
\<close>

definition register_ge :: "('ps, 'e) plugin \<Rightarrow> (string \<times> ('ps, 'e) plugin) list \<Rightarrow> (string \<times> ('ps, 'e) plugin) list" where
  "register_ge p m =
     (case map_of m (name p) of
        None \<Rightarrow> map_set (name p) p m
      | Some existing \<Rightarrow> if prio p \<ge> prio existing then map_set (name p) p m else m)"

definition sort_descending :: "('ps, 'e) plugin list \<Rightarrow> ('ps, 'e) plugin list" where
  "sort_descending ps = sort_key (\<lambda>p. - prio p) ps"

definition initialize_plugins :: "('ps, 'e) factory \<Rightarrow> ('ps, 'e) plugin list \<Rightarrow> ('ps, 'e) plugin list" where
  "initialize_plugins cfg new_plugins =
     sort_descending (map snd (fold register_ge (new_plugins @ initial_plugins cfg) []))"

text \<open>The setup loop of an attach: each plugin's setup and flush inside its own \<open>resultify\<close>.\<close>

fun inst_setup_loop ::
  "('ps, 'e) factory \<Rightarrow> ('ps, 'e) plugin list \<Rightarrow> ('ps, 'e) draggable_instance \<Rightarrow> ('ps, 'e) draggable_instance" where
  "inst_setup_loop cfg [] i = i"
| "inst_setup_loop cfg (p # ps) i =
     inst_setup_loop cfg ps
       (case setup_hook p of
          None \<Rightarrow> inst_flush_effects i
        | Some f \<Rightarrow>
            (let out = f (inst_ctx i);
                 i1 = inst_ctx_calls (setup_acts out) (i\<lparr>invoked := invoked i @ [(ident p, Setup)]\<rparr>)
             in case setup_threw out of
                  Some err \<Rightarrow>
                    report_error cfg
                      \<lparr> err_phase = Setup, err_plugin = Some (name p, Setup),
                        err_node = root_node i, err_error = err \<rparr> i1
                | None \<Rightarrow>
                    inst_flush_effects
                      (case setup_value out of
                         None \<Rightarrow> i1
                       | Some v \<Rightarrow> i1\<lparr>states := (states i1)(name p \<mapsto> v)\<rparr>)))"

definition new_instance :: "node \<Rightarrow> ('ps, 'e) draggable_instance" where
  "new_instance n =
     \<lparr> ctx_proposed_x = Some 0, ctx_proposed_y = Some 0, ctx_delta_x = 0, ctx_delta_y = 0,
       ctx_offset_x = 0, ctx_offset_y = 0, ctx_initial_x = 0, ctx_initial_y = 0,
       ctx_isDragging = False, ctx_isInteracting = False, ctx_rootNode = n,
       ctx_lastEvent = None, root_node = n, plugins = [], states = Map.empty,
       dragstart_prevented = False, current_drag_hook_cancelled = False,
       pointer_captured_id = None, effects = [], executed = [], invoked = [], reported = [] \<rparr>"

text \<open>
  \<open>createDraggable(...).draggable(node, plugins)\<close>; the result is the reference that the
  returned \<open>update\<close> and \<open>destroy\<close> closures hold, with the new registry.
\<close>

definition attach ::
  "('ps, 'e) factory \<Rightarrow> node \<Rightarrow> ('ps, 'e) plugin list \<Rightarrow> ('ps, 'e) manager \<Rightarrow> nat \<times> ('ps, 'e) manager" where
  "attach cfg n ps m =
     (let i0 = (new_instance n)\<lparr>plugins := initialize_plugins cfg ps\<rparr>;
          i1 = inst_setup_loop cfg (plugins i0) i0;
          r = next_ref m
      in (r, m\<lparr>heap := (heap m)(r \<mapsto> i1), instances := (instances m)(n \<mapsto> r),
               listeners_initialized := True, next_ref := Suc r\<rparr>))"

definition createDraggable :: "('ps, 'e) manager" where
  "createDraggable =
     \<lparr> heap = Map.empty, instances = Map.empty, listeners_initialized = False,
       active_node = None, next_ref = 0 \<rparr>"


subsection \<open>\<open>update\<close> and \<open>destroy\<close>\<close>

text \<open>
  Neither wraps its hook calls in \<open>resultify\<close>: a \<open>cleanup\<close> or \<open>setup\<close> that throws
  ends the operation there, and the error escapes to the caller.
\<close>

definition run_cleanup ::
  "bool \<Rightarrow> ('ps, 'e) plugin \<Rightarrow> ('ps, 'e) draggable_instance \<Rightarrow> js_error option \<times> ('ps, 'e) draggable_instance" where
  "run_cleanup delete_state p i =
     (case cleanup p of
        None \<Rightarrow> (None, if delete_state then i\<lparr>states := (states i)(name p := None)\<rparr> else i)
      | Some c \<Rightarrow>
          (let out = c (inst_ctx i) (states i (name p));
               i1 = inst_ctx_calls (acts out) i;
               i2 = i1\<lparr>states := (states i1)(name p := map_option (state_after out) (states i1 (name p)))\<rparr>
           in case ret out of
                Threw err \<Rightarrow> (Some err, i2)
              | _ \<Rightarrow> (None, if delete_state then i2\<lparr>states := (states i2)(name p := None)\<rparr> else i2)))"

definition update_plugin ::
  "('ps, 'e) plugin option \<Rightarrow> ('ps, 'e) plugin \<Rightarrow> ('ps, 'e) draggable_instance
     \<Rightarrow> js_error option \<times> bool \<times> ('ps, 'e) draggable_instance" where
  "update_plugin old_plugin new_plugin i =
     (let same = (case old_plugin of None \<Rightarrow> False | Some old \<Rightarrow> ident old = ident new_plugin)
      in if same \<and> \<not> liveUpdate new_plugin then (None, False, i)
         else
           (case (case old_plugin of
                    None \<Rightarrow> (None, i)
                  | Some old \<Rightarrow> if same then (None, i) else run_cleanup True old i) of
              (Some err, i1) \<Rightarrow> (Some err, False, i1)
            | (None, i1) \<Rightarrow>
                (case setup_hook new_plugin of
                   None \<Rightarrow> (None, True, inst_flush_effects i1)
                 | Some f \<Rightarrow>
                     (let out = f (inst_ctx i1);
                          i2 = inst_ctx_calls (setup_acts out)
                                 (i1\<lparr>invoked := invoked i1 @ [(ident new_plugin, Setup)]\<rparr>)
                      in case setup_threw out of
                           Some err \<Rightarrow> (Some err, False, i2)
                         | None \<Rightarrow>
                             (let i3 = inst_flush_effects i2
                              in (None, True,
                                  case setup_value out of
                                    None \<Rightarrow> i3
                                  | Some v \<Rightarrow> i3\<lparr>states := (states i3)(name new_plugin \<mapsto> v)\<rparr>))))))"

text \<open>\<open>old_plugin_map.get(name)\<close>: a \<open>Map\<close> built from entries keeps the last entry of a key.\<close>

definition old_plugin_map_get :: "('ps, 'e) plugin list \<Rightarrow> string \<Rightarrow> ('ps, 'e) plugin option" where
  "old_plugin_map_get olds k = find (\<lambda>p. name p = k) (rev olds)"

fun update_loop ::
  "('ps, 'e) plugin list \<Rightarrow> ('ps, 'e) plugin list \<Rightarrow> bool \<Rightarrow> ('ps, 'e) draggable_instance
     \<Rightarrow> js_error option \<times> bool \<times> ('ps, 'e) draggable_instance" where
  "update_loop olds [] has_changes i = (None, has_changes, i)"
| "update_loop olds (p # ps) has_changes i =
     (case update_plugin (old_plugin_map_get olds (name p)) p i of
        (Some err, b, i1) \<Rightarrow> (Some err, has_changes, i1)
      | (None, b, i1) \<Rightarrow> update_loop olds ps (has_changes \<or> b) i1)"

fun cleanup_loop ::
  "bool \<Rightarrow> ('ps, 'e) plugin list \<Rightarrow> ('ps, 'e) draggable_instance \<Rightarrow> js_error option \<times> ('ps, 'e) draggable_instance" where
  "cleanup_loop delete_state [] i = (None, i)"
| "cleanup_loop delete_state (p # ps) i =
     (case run_cleanup delete_state p i of
        (Some err, i1) \<Rightarrow> (Some err, i1)
      | (None, i1) \<Rightarrow> cleanup_loop delete_state ps i1)"

text \<open>
  \<open>update(instance, new_plugins)\<close> for the instance held by reference \<open>r\<close>. The \<open>update\<close>
  closure that an attach returns calls it without plugins (\<open>new_plugins = []\<close>).
\<close>

definition update ::
  "('ps, 'e) factory \<Rightarrow> nat \<Rightarrow> ('ps, 'e) plugin list \<Rightarrow> ('ps, 'e) manager \<Rightarrow> js_error option \<times> ('ps, 'e) manager" where
  "update cfg r new_plugins m =
     (case heap m r of
        None \<Rightarrow> (None, m)
      | Some i \<Rightarrow>
          (let new_plugin_list = initialize_plugins cfg new_plugins
           in if ctx_isDragging i \<or> ctx_isInteracting i
              then (case update_loop (plugins i) (filter liveUpdate new_plugin_list) False i of
                      (Some err, b, i1) \<Rightarrow> (Some err, store r i1 m)
                    | (None, has_changes, i1) \<Rightarrow>
                        (case ctx_lastEvent i1 of
                           None \<Rightarrow> (None, store r i1 m)
                         | Some last_event \<Rightarrow>
                             if has_changes \<and> active_node m = Some (root_node i1)
                             then handle_pointer_move cfg last_event (store r i1 m)
                             else (None, store r i1 m)))
              else
                (let removed_plugins =
                       filter (\<lambda>p. \<not> list_ex (\<lambda>np. name np = name p) new_plugin_list) (plugins i)
                 in case cleanup_loop True removed_plugins i of
                      (Some err, i1) \<Rightarrow> (Some err, store r i1 m)
                    | (None, i1) \<Rightarrow>
                        (case update_loop (plugins i) new_plugin_list (removed_plugins \<noteq> []) i1 of
                           (Some err, b, i2) \<Rightarrow> (Some err, store r i2 m)
                         | (None, has_changes, i2) \<Rightarrow>
                             (None,
                              store r (if has_changes then i2\<lparr>plugins := new_plugin_list\<rparr> else i2) m)))))"

definition destroy ::
  "nat \<Rightarrow> ('ps, 'e) manager \<Rightarrow> js_error option \<times> ('ps, 'e) manager" where
  "destroy r m =
     (case heap m r of
        None \<Rightarrow> (None, m)
      | Some i \<Rightarrow>
          (let m1 = (if active_node m = Some (root_node i) then m\<lparr>active_node := None\<rparr> else m)
           in case cleanup_loop False (plugins i) i of
                (Some err, i1) \<Rightarrow> (Some err, store r i1 m1)
              | (None, i1) \<Rightarrow>
                  (None, (store r i1 m1)\<lparr>instances := (instances m1)(root_node i := None)\<rparr>)))"

text \<open>Everything a client or the browser can do to a registry, one operation at a time.\<close>

datatype ('ps, 'e) operation =
    Attach node "('ps, 'e) plugin list"
  | Update nat "('ps, 'e) plugin list"
  | Destroy nat
  | PointerDown pointer_event
  | PointerMove pointer_event
  | PointerUp pointer_event

fun perform :: "('ps, 'e) factory \<Rightarrow> ('ps, 'e) operation \<Rightarrow> ('ps, 'e) manager \<Rightarrow> ('ps, 'e) manager" where
  "perform cfg (Attach n ps) m = snd (attach cfg n ps m)"
| "perform cfg (Update r ps) m = snd (update cfg r ps m)"
| "perform cfg (Destroy r) m = snd (destroy r m)"
| "perform cfg (PointerDown e) m = snd (handle_pointer_down cfg e m)"
| "perform cfg (PointerMove e) m = snd (handle_pointer_move cfg e m)"
| "perform cfg (PointerUp e) m = snd (handle_pointer_up cfg e m)"

definition perform_all :: "('ps, 'e) factory \<Rightarrow> ('ps, 'e) operation list \<Rightarrow> ('ps, 'e) manager \<Rightarrow> ('ps, 'e) manager" where
  "perform_all cfg ops m = fold (perform cfg) ops m"


section \<open>Built-in plugins: axis and grid\<close>

text \<open>
  The private state of a plugin is whatever its \<open>setup\<close> returned. The axis plugin keeps
  its degrees of freedom \<open>{df: {x, y}}\<close>; any other plugin's state is a value of \<open>'u\<close>.
  The first argument of \<open>axis\<close> and \<open>grid\<close> is the identity of the created object.
\<close>

datatype 'u private_state = DF bool bool | Other 'u

datatype axis_value = Axis_both | Axis_x | Axis_y | Axis_none

definition quiet :: "('ps, 'e) hook_out" where
  "quiet = \<lparr> acts = [], state_after = (\<lambda>st. st), ret = RetOther \<rparr>"

definition axis :: "nat \<Rightarrow> axis_value \<Rightarrow> ('u private_state, 'e) plugin" where
  "axis r val =
     \<lparr> ident = r, name = ''neodrag:axis'', priority = None, liveUpdate = False,
       cancelable = None,
       setup_hook = Some (\<lambda>c. \<lparr> setup_acts = [],
                                 setup_value = Some (DF (val = Axis_both \<or> val = Axis_x) (val = Axis_both \<or> val = Axis_y)),
                                 setup_threw = None \<rparr>),
       shouldDrag = Some (\<lambda>c st e. quiet\<lparr>ret := (if val \<noteq> Axis_none then RetOther else RetFalse)\<rparr>),
       dragStart = None,
       drag = Some (\<lambda>c st e.
                (case st of
                   Some (DF dfx dfy) \<Rightarrow>
                     quiet\<lparr>acts := [Propose (if dfx then v_proposed_x c else None)
                                           (if dfy then v_proposed_y c else None)]\<rparr>
                 | _ \<Rightarrow> quiet\<lparr>ret := Threw ''TypeError''\<rparr>)),
       dragEnd = None, cleanup = None \<rparr>"

definition calc :: "real \<Rightarrow> real \<Rightarrow> real" where
  "calc val snap = (if snap = 0 then 0 else of_int \<lceil>val / snap\<rceil> * snap)"

definition snap_to_grid :: "real \<times> real \<Rightarrow> real option \<Rightarrow> real option \<Rightarrow> real option \<times> real option" where
  "snap_to_grid snaps pending_x pending_y =
     (if truthy pending_x then map_option (\<lambda>v. calc v (fst snaps)) pending_x else pending_x,
      if truthy pending_y then map_option (\<lambda>v. calc v (snd snaps)) pending_y else pending_y)"

definition grid :: "nat \<Rightarrow> real \<Rightarrow> real \<Rightarrow> ('ps, 'e) plugin" where
  "grid r x y =
     \<lparr> ident = r, name = ''neodrag:grid'', priority = None, liveUpdate = False,
       cancelable = None, setup_hook = None, shouldDrag = None, dragStart = None,
       drag = Some (\<lambda>c st e.
                (case snap_to_grid (x, y) (v_proposed_x c) (v_proposed_y c) of
                   (gx, gy) \<Rightarrow> quiet\<lparr>acts := [Propose gx gy]\<rparr>)),
       dragEnd = None, cleanup = None \<rparr>"


section \<open>Notions used in the statements\<close>

text \<open>
  What a hook chain cannot touch in the single-instance engine: everything but the
  proposal, the cancellation flag, the effect queue, the private states and the history
  of hook calls.
\<close>

definition frame_eq :: "('ps, 'e) engine \<Rightarrow> ('ps, 'e) engine \<Rightarrow> bool" where
  "frame_eq s' s \<longleftrightarrow>
     x_offset s' = x_offset s \<and> y_offset s' = y_offset s \<and>
     initial_x s' = initial_x s \<and> initial_y s' = initial_y s \<and>
     is_interacting s' = is_interacting s \<and> is_dragging s' = is_dragging s \<and>
     notifications s' = notifications s \<and> effects_run s' = effects_run s \<and>
     ordered_plugins s' = ordered_plugins s \<and>
     meets_time_threshold s' = meets_time_threshold s \<and>
     meets_distance_threshold s' = meets_distance_threshold s \<and>
     threshold_delay s' = threshold_delay s \<and>
     threshold_distance s' = threshold_distance s \<and>
     start_time s' = start_time s \<and> root s' = root s \<and>
     delta_x s' = delta_x s \<and> delta_y s' = delta_y s"

text \<open>The same for an instance of the delegated engine.\<close>

definition inst_frame_eq :: "('ps, 'e) draggable_instance \<Rightarrow> ('ps, 'e) draggable_instance \<Rightarrow> bool" where
  "inst_frame_eq i' i \<longleftrightarrow>
     ctx_offset_x i' = ctx_offset_x i \<and> ctx_offset_y i' = ctx_offset_y i \<and>
     ctx_initial_x i' = ctx_initial_x i \<and> ctx_initial_y i' = ctx_initial_y i \<and>
     ctx_delta_x i' = ctx_delta_x i \<and> ctx_delta_y i' = ctx_delta_y i \<and>
     ctx_isInteracting i' = ctx_isInteracting i \<and> ctx_isDragging i' = ctx_isDragging i \<and>
     ctx_rootNode i' = ctx_rootNode i \<and> ctx_lastEvent i' = ctx_lastEvent i \<and>
     root_node i' = root_node i \<and> plugins i' = plugins i \<and>
     pointer_captured_id i' = pointer_captured_id i \<and> executed i' = executed i"

text \<open>
  Sample inputs: a primary-button pointer event at \<open>(x, y)\<close> over node 7, and engines
  with the grid plugin (steps 10 and 10) after a pointer-down at the origin and a first
  move to \<open>(12, 25)\<close>.
\<close>

definition ev :: "real \<Rightarrow> real \<Rightarrow> pointer_event" where
  "ev x y = \<lparr> button = 0, clientX = x, clientY = y, pointerId = 1, date_now = 0,
              target_contained = True, inverse_scale = 1, composedPath = [(7, True)],
              set_capture_throws = None \<rparr>"

definition grid_options :: "(unit private_state, string) options" where
  "grid_options =
     \<lparr> default_plugins = [], user_plugins = [grid 1 10 10], delay = 0, distance = 3,
       opt_node = 7 \<rparr>"

definition grid_engine :: "(unit private_state, string) engine" where
  "grid_engine = listeners [Down (ev 0 0), Move (ev 12 25)] (initial_engine grid_options)"

definition plain_factory :: "(unit private_state, string) factory" where
  "plain_factory = \<lparr> initial_plugins = [], onError = True \<rparr>"

definition grid_instance :: "(unit private_state, string) draggable_instance" where
  "grid_instance =
     inst_pointer_move plain_factory (ev 12 25)
       ((new_instance 7)\<lparr>plugins := [grid 1 10 10], ctx_isInteracting := True\<rparr>)"

text \<open>
  A probe plugin: it has every hook; \<open>dragStart\<close>, \<open>drag\<close> and \<open>dragEnd\<close> each queue an
  effect labelled with the plugin's name and the hook, and every hook returns normally.
  \<open>probe_engine\<close> and \<open>probe_manager\<close> hold one probe whose \<open>dragEnd\<close> hook returns
  \<open>false\<close>, after a pointer-down at the origin and a move to \<open>(12, 25)\<close>.
\<close>

definition probe :: "nat \<Rightarrow> string \<Rightarrow> real option \<Rightarrow> (unit private_state, string) plugin" where
  "probe r nm pr =
     \<lparr> ident = r, name = nm, priority = pr, liveUpdate = False, cancelable = None,
       setup_hook = Some (\<lambda>c. \<lparr> setup_acts = [], setup_value = None, setup_threw = None \<rparr>),
       shouldDrag = Some (\<lambda>c st e. quiet),
       dragStart = Some (\<lambda>c st e. quiet\<lparr>acts := [Effect (nm @ '':dragStart'')]\<rparr>),
       drag = Some (\<lambda>c st e. quiet\<lparr>acts := [Effect (nm @ '':drag'')]\<rparr>),
       dragEnd = Some (\<lambda>c st e. quiet\<lparr>acts := [Effect (nm @ '':dragEnd'')]\<rparr>),
       cleanup = None \<rparr>"







text \<open>
  For the registry: every instance whose cancellation flag is set in \<open>m\<close> is still there
  in \<open>m'\<close> with the flag set; and references are handed out in order, so that those not
  yet handed out hold no instance.
\<close>

definition flag_kept :: "('ps, 'e) manager \<Rightarrow> ('ps, 'e) manager \<Rightarrow> bool" where
  "flag_kept m m' \<longleftrightarrow>
     (\<forall>r i. heap m r = Some i \<and> current_drag_hook_cancelled i \<longrightarrow>
        (\<exists>i'. heap m' r = Some i' \<and> current_drag_hook_cancelled i'))"

definition fresh :: "('ps, 'e) manager \<Rightarrow> bool" where
  "fresh m \<longleftrightarrow> (\<forall>r. next_ref m \<le> r \<longrightarrow> heap m r = None)"

text \<open>
  A plugin whose \<open>drag\<close> hook calls \<open>cancel()\<close>, attached to node 7; a pointer-down and a
  first move have been handled.
\<close>

definition cancelling_drag :: "(unit private_state, string) plugin" where
  "cancelling_drag = (probe 1 ''p'' None)\<lparr>drag := Some (\<lambda>c st e. quiet\<lparr>acts := [Cancel]\<rparr>)\<rparr>"

definition cancelled_manager :: "(unit private_state, string) manager" where
  "cancelled_manager =
     perform_all plain_factory
       [Attach 7 [cancelling_drag], PointerDown (ev 0 0), PointerMove (ev 12 25)] createDraggable"

definition cancelled_instance :: "(unit private_state, string) draggable_instance" where
  "cancelled_instance = snd (the (instances_get cancelled_manager 7))"

text \<open>
  Two probes of priorities 1 and 2 under different names, and two probes of priorities 1
  and 2 (and two of equal priority) under the one name \<open>p\<close>, as the user plugins of a
  single-instance engine without default plugins.
\<close>

definition low_high_options :: "(unit private_state, string) options" where
  "low_high_options =
     \<lparr> default_plugins = [],
       user_plugins = [probe 1 ''low'' (Some 1), probe 2 ''high'' (Some 2)],
       delay = 0, distance = 3, opt_node = 7 \<rparr>"

definition same_name_options :: "(unit private_state, string) options" where
  "same_name_options =
     \<lparr> default_plugins = [],
       user_plugins = [probe 1 ''p'' (Some 1), probe 2 ''p'' (Some 2)],
       delay = 0, distance = 3, opt_node = 7 \<rparr>"

definition same_priority_options :: "(unit private_state, string) options" where
  "same_priority_options =
     \<lparr> default_plugins = [],
       user_plugins = [probe 1 ''p'' (Some 1), probe 2 ''p'' (Some 1)],
       delay = 0, distance = 3, opt_node = 7 \<rparr>"

text \<open>The hook calls of a chain that visits every plugin of the list that has the hook.\<close>

definition hooked :: "hook_name \<Rightarrow> ('ps, 'e) plugin list \<Rightarrow> (nat \<times> phase) list" where
  "hooked h ps = map (\<lambda>p. (ident p, During h)) (filter (\<lambda>p. handler_of h p \<noteq> None) ps)"

text \<open>One probe on node 7 of the delegated engine, after its pointer-down.\<close>

definition pressed_manager :: "(unit private_state, string) manager" where
  "pressed_manager =
     perform_all plain_factory [Attach 7 [probe 1 ''p'' None], PointerDown (ev 0 0)] createDraggable"

definition pressed_instance :: "(unit private_state, string) draggable_instance" where
  "pressed_instance = snd (the (instances_get pressed_manager 7))"

definition pressed_engine :: "(unit private_state, string) engine" where
  "pressed_engine =
     listeners [Down (ev 0 0)]
       (initial_engine \<lparr> default_plugins = [], user_plugins = [probe 1 ''p'' None], delay = 0,
                         distance = 3, opt_node = 7 \<rparr>)"




definition multiple_of :: "real \<Rightarrow> real \<Rightarrow> bool" where
  "multiple_of step v \<longleftrightarrow> (\<exists>k::int. v = of_int k * step)"




text \<open>
  What pointer-down, pointer-up and the start of a drag leave alone in the single-instance
  engine: the plugin list, the committed offset and the private state under a key \<open>k\<close>.
\<close>

definition settled :: "string \<Rightarrow> ('ps, 'e) engine \<Rightarrow> ('ps, 'e) engine \<Rightarrow> bool" where
  "settled k s' s \<longleftrightarrow>
     ordered_plugins s' = ordered_plugins s \<and> x_offset s' = x_offset s \<and>
     y_offset s' = y_offset s \<and> private_states s' k = private_states s k"




















definition cancelling_start :: "(unit private_state, string) plugin" where
  "cancelling_start =
     (probe 1 ''a'' None)
       \<lparr>dragStart := Some (\<lambda>c st e. quiet\<lparr>acts := [Effect ''a:dragStart'', Cancel]\<rparr>)\<rparr>"







text \<open>
  Sample inputs for the axis lock where it gives way: a plugin whose \<open>drag\<close> hook proposes
  a vertical delta of 5 whatever it found, after the axis plugin in a single-instance
  engine; two axis plugins, set to \<open>x\<close> and to \<open>y\<close>, given to one single-instance engine;
  the axis plugin attached with a plugin whose \<open>dragStart\<close> hook calls \<open>cancel()\<close>, after a
  pointer-down at the origin; and a probe whose \<open>shouldDrag\<close> hook calls \<open>cancel()\<close>,
  attached before an axis plugin set to \<open>none\<close>.
\<close>

definition lifter :: "(unit private_state, string) plugin" where
  "lifter =
     (probe 2 ''l'' None)
       \<lparr>drag := Some (\<lambda>c st e. quiet\<lparr>acts := [Propose (v_proposed_x c) (Some 5)]\<rparr>)\<rparr>"

definition lifted_options :: "(unit private_state, string) options" where
  "lifted_options =
     \<lparr> default_plugins = [], user_plugins = [axis 1 Axis_x, lifter], delay = 0, distance = 3,
       opt_node = 7 \<rparr>"

definition lifted_engine :: "(unit private_state, string) engine" where
  "lifted_engine =
     snd (setup_loop (default_plugins lifted_options @ user_plugins lifted_options)
            (initial_engine lifted_options))"

definition two_axis_options :: "(unit private_state, string) options" where
  "two_axis_options =
     \<lparr> default_plugins = [], user_plugins = [axis 1 Axis_x, axis 2 Axis_y], delay = 0,
       distance = 3, opt_node = 7 \<rparr>"

definition two_axis_engine :: "(unit private_state, string) engine" where
  "two_axis_engine =
     snd (setup_loop (default_plugins two_axis_options @ user_plugins two_axis_options)
            (initial_engine two_axis_options))"

definition unlocked_instance :: "(unit private_state, string) draggable_instance" where
  "unlocked_instance =
     snd (the (instances_get
                 (perform_all plain_factory
                    [Attach 7 [axis 1 Axis_x, cancelling_start], PointerDown (ev 0 0)]
                    createDraggable) 7))"

definition cancelling_should :: "(unit private_state, string) plugin" where
  "cancelling_should =
     (probe 1 ''a'' None)\<lparr>shouldDrag := Some (\<lambda>c st e. quiet\<lparr>acts := [Cancel]\<rparr>)\<rparr>"

definition skipped_manager :: "(unit private_state, string) manager" where
  "skipped_manager =
     perform_all plain_factory [Attach 7 [cancelling_should, axis 2 Axis_none]] createDraggable"


section \<open>Verified properties\<close>

subsection \<open>What a hook chain leaves alone\<close>

lemma frame_eq_refl: "frame_eq s s"
  by (simp add: frame_eq_def)

lemma frame_eq_trans: "frame_eq s'' s' \<Longrightarrow> frame_eq s' s \<Longrightarrow> frame_eq s'' s"
  by (simp add: frame_eq_def)

lemma ctx_call_frame_eq: "frame_eq (ctx_call a s) s"
  by (cases a) (simp_all add: frame_eq_def)

lemma ctx_calls_frame_eq: "frame_eq (ctx_calls as s) s"
  unfolding ctx_calls_def
proof (induction as arbitrary: s)
  case Nil
  show ?case by (simp add: frame_eq_refl)
next
  case (Cons a as)
  show ?case
    using Cons[of "ctx_call a s"] ctx_call_frame_eq[of a s]
    by (auto intro: frame_eq_trans)
qed

lemma call_handler_frame_eq: "frame_eq (snd (call_handler p h f e s)) s"
proof -
  have "frame_eq (ctx_calls as (s\<lparr>hook_calls := hc\<rparr>)) s" for as hc
    using ctx_calls_frame_eq[of as "s\<lparr>hook_calls := hc\<rparr>"] by (simp add: frame_eq_def)
  then show ?thesis
    by (simp add: call_handler_def Let_def frame_eq_def)
qed

lemma run_plugins_loop_frame_eq: "frame_eq (snd (run_plugins_loop ps h e s)) s"
proof (induction ps arbitrary: s)
  case Nil
  show ?case by (simp add: frame_eq_refl)
next
  case (Cons p ps)
  show ?case
  proof (cases "handler_of h p")
    case None
    then show ?thesis using Cons by simp
  next
    case (Some f)
    obtain r s1 where c: "call_handler p h f e s = (r, s1)"
      by (cases "call_handler p h f e s")
    have f1: "frame_eq s1 s"
      using call_handler_frame_eq[of p h f e s] c by simp
    show ?thesis
    proof (cases r)
      case RetFalse
      then show ?thesis using Some c f1 by simp
    next
      case (Threw err)
      then show ?thesis using Some c f1 by simp
    next
      case RetOther
      show ?thesis
      proof (cases "hook_cancelled s1")
        case True
        then show ?thesis using Some c f1 RetOther by (simp add: frame_eq_def)
      next
        case False
        then show ?thesis
          using Some c RetOther Cons[of s1] f1 by (auto intro: frame_eq_trans)
      qed
    qed
  qed
qed

lemma run_plugins_frame_eq: "frame_eq (snd (run_plugins h e s)) s"
  by (simp add: run_plugins_def run_plugins_loop_frame_eq)

lemma inst_frame_eq_refl: "inst_frame_eq i i"
  by (simp add: inst_frame_eq_def)

lemma inst_frame_eq_trans: "inst_frame_eq i'' i' \<Longrightarrow> inst_frame_eq i' i \<Longrightarrow> inst_frame_eq i'' i"
  by (simp add: inst_frame_eq_def)

lemma inst_ctx_call_frame_eq: "inst_frame_eq (inst_ctx_call a i) i"
  by (cases a) (simp_all add: inst_frame_eq_def)

lemma inst_ctx_calls_frame_eq: "inst_frame_eq (inst_ctx_calls as i) i"
  unfolding inst_ctx_calls_def
proof (induction as arbitrary: i)
  case Nil
  show ?case by (simp add: inst_frame_eq_refl)
next
  case (Cons a as)
  show ?case
    using Cons[of "inst_ctx_call a i"] inst_ctx_call_frame_eq[of a i]
    by (auto intro: inst_frame_eq_trans)
qed

lemma inst_call_handler_frame_eq: "inst_frame_eq (snd (inst_call_handler p h f e i)) i"
proof -
  have "inst_frame_eq (inst_ctx_calls as (i\<lparr>invoked := hc\<rparr>)) i" for as hc
    using inst_ctx_calls_frame_eq[of as "i\<lparr>invoked := hc\<rparr>"] by (simp add: inst_frame_eq_def)
  then show ?thesis
    by (simp add: inst_call_handler_def Let_def inst_frame_eq_def)
qed

lemma inst_run_plugins_loop_frame_eq: "inst_frame_eq (snd (inst_run_plugins_loop cfg ps h e i)) i"
proof (induction ps arbitrary: i)
  case Nil
  show ?case by (simp add: inst_frame_eq_refl)
next
  case (Cons p ps)
  show ?case
  proof (cases "handler_of h p")
    case None
    then show ?thesis using Cons by simp
  next
    case (Some f)
    show ?thesis
    proof (cases "current_drag_hook_cancelled i \<and> cancelable p \<noteq> Some False")
      case True
      then show ?thesis using Some Cons by simp
    next
      case False
      obtain r i1 where c: "inst_call_handler p h f e i = (r, i1)"
        by (cases "inst_call_handler p h f e i")
      have f1: "inst_frame_eq i1 i"
        using inst_call_handler_frame_eq[of p h f e i] c by simp
      show ?thesis
      proof (cases r)
        case RetFalse
        then show ?thesis using Some False c f1 by auto
      next
        case (Threw err)
        then show ?thesis
          using Some False c f1 by (auto simp: report_error_def inst_frame_eq_def)
      next
        case RetOther
        then show ?thesis
          using Some False c Cons[of i1] f1 by (auto intro: inst_frame_eq_trans)
      qed
    qed
  qed
qed

lemma inst_run_plugins_frame_eq: "inst_frame_eq (snd (inst_run_plugins cfg h e i)) i"
  using inst_run_plugins_loop_frame_eq[of cfg "plugins i" h e "i\<lparr>dragstart_prevented := False\<rparr>"]
  by (simp add: inst_run_plugins_def inst_frame_eq_def)


subsection \<open>The per-move algorithm\<close>

lemma drag_step_committed:
  assumes "fst (run_plugins Drag e (propose_delta e s)) = Ran True"
  shows "fst (drag_step e s) = None"
    and "x_offset (snd (drag_step e s)) =
           x_offset s + or_zero (proposals_x (snd (run_plugins Drag e (propose_delta e s))))"
    and "y_offset (snd (drag_step e s)) =
           y_offset s + or_zero (proposals_y (snd (run_plugins Drag e (propose_delta e s))))"
    and "notifications (snd (drag_step e s)) =
           notifications s @ [Neodrag (x_offset (snd (drag_step e s))) (y_offset (snd (drag_step e s)))]"
proof -
  obtain s1 where r: "run_plugins Drag e (propose_delta e s) = (Ran True, s1)"
    using assms by (cases "run_plugins Drag e (propose_delta e s)") auto
  have "frame_eq s1 (propose_delta e s)"
    using run_plugins_frame_eq[of Drag e "propose_delta e s"] r by simp
  then have f: "x_offset s1 = x_offset s" "y_offset s1 = y_offset s"
      "notifications s1 = notifications s"
    by (simp_all add: frame_eq_def propose_delta_def Let_def)
  show "fst (drag_step e s) = None"
    by (simp add: drag_step_def r Let_def)
  show "x_offset (snd (drag_step e s)) =
           x_offset s + or_zero (proposals_x (snd (run_plugins Drag e (propose_delta e s))))"
    by (simp add: drag_step_def r Let_def flush_effects_def call_event_def f)
  show "y_offset (snd (drag_step e s)) =
           y_offset s + or_zero (proposals_y (snd (run_plugins Drag e (propose_delta e s))))"
    by (simp add: drag_step_def r Let_def flush_effects_def call_event_def f)
  show "notifications (snd (drag_step e s)) =
           notifications s @ [Neodrag (x_offset (snd (drag_step e s))) (y_offset (snd (drag_step e s)))]"
    by (simp add: drag_step_def r Let_def flush_effects_def call_event_def f)
qed

lemma drag_step_not_committed:
  assumes "fst (run_plugins Drag e (propose_delta e s)) \<noteq> Ran True"
  shows "x_offset (snd (drag_step e s)) = x_offset s"
    and "y_offset (snd (drag_step e s)) = y_offset s"
    and "notifications (snd (drag_step e s)) = notifications s"
proof -
  obtain r s1 where r: "run_plugins Drag e (propose_delta e s) = (r, s1)"
    by (cases "run_plugins Drag e (propose_delta e s)")
  have "frame_eq s1 (propose_delta e s)"
    using run_plugins_frame_eq[of Drag e "propose_delta e s"] r by simp
  then have f: "x_offset s1 = x_offset s" "y_offset s1 = y_offset s"
      "notifications s1 = notifications s"
    by (simp_all add: frame_eq_def propose_delta_def Let_def)
  have nt: "r \<noteq> Ran True"
    using assms r by simp
  show "x_offset (snd (drag_step e s)) = x_offset s"
    using nt by (cases r) (simp_all add: drag_step_def r clear_effects_def f)
  show "y_offset (snd (drag_step e s)) = y_offset s"
    using nt by (cases r) (simp_all add: drag_step_def r clear_effects_def f)
  show "notifications (snd (drag_step e s)) = notifications s"
    using nt by (cases r) (simp_all add: drag_step_def r clear_effects_def f)
qed

lemma inst_drag_step_committed:
  assumes "fst (inst_run_plugins cfg Drag e (inst_propose_delta e i))"
  shows "ctx_offset_x (inst_drag_step cfg e i) =
           ctx_offset_x i + or_zero (ctx_proposed_x (snd (inst_run_plugins cfg Drag e (inst_propose_delta e i))))"
    and "ctx_offset_y (inst_drag_step cfg e i) =
           ctx_offset_y i + or_zero (ctx_proposed_y (snd (inst_run_plugins cfg Drag e (inst_propose_delta e i))))"
proof -
  obtain i1 where r: "inst_run_plugins cfg Drag e (inst_propose_delta e i) = (True, i1)"
    using assms by (cases "inst_run_plugins cfg Drag e (inst_propose_delta e i)") auto
  have "inst_frame_eq i1 (inst_propose_delta e i)"
    using inst_run_plugins_frame_eq[of cfg Drag e "inst_propose_delta e i"] r by simp
  then have f: "ctx_offset_x i1 = ctx_offset_x i" "ctx_offset_y i1 = ctx_offset_y i"
    by (simp_all add: inst_frame_eq_def inst_propose_delta_def Let_def)
  show "ctx_offset_x (inst_drag_step cfg e i) =
           ctx_offset_x i + or_zero (ctx_proposed_x (snd (inst_run_plugins cfg Drag e (inst_propose_delta e i))))"
    by (simp add: inst_drag_step_def r Let_def inst_flush_effects_def inst_clear_effects_def f)
  show "ctx_offset_y (inst_drag_step cfg e i) =
           ctx_offset_y i + or_zero (ctx_proposed_y (snd (inst_run_plugins cfg Drag e (inst_propose_delta e i))))"
    by (simp add: inst_drag_step_def r Let_def inst_flush_effects_def inst_clear_effects_def f)
qed

lemma inst_drag_step_not_committed:
  assumes "\<not> fst (inst_run_plugins cfg Drag e (inst_propose_delta e i))"
  shows "ctx_offset_x (inst_drag_step cfg e i) = ctx_offset_x i"
    and "ctx_offset_y (inst_drag_step cfg e i) = ctx_offset_y i"
proof -
  obtain i1 where r: "inst_run_plugins cfg Drag e (inst_propose_delta e i) = (False, i1)"
    using assms by (cases "inst_run_plugins cfg Drag e (inst_propose_delta e i)") auto
  have "inst_frame_eq i1 (inst_propose_delta e i)"
    using inst_run_plugins_frame_eq[of cfg Drag e "inst_propose_delta e i"] r by simp
  then have f: "ctx_offset_x i1 = ctx_offset_x i" "ctx_offset_y i1 = ctx_offset_y i"
    by (simp_all add: inst_frame_eq_def inst_propose_delta_def Let_def)
  show "ctx_offset_x (inst_drag_step cfg e i) = ctx_offset_x i"
    by (simp add: inst_drag_step_def r inst_clear_effects_def f)
  show "ctx_offset_y (inst_drag_step cfg e i) = ctx_offset_y i"
    by (simp add: inst_drag_step_def r inst_clear_effects_def f)
qed

text \<open>
  C1. For a pointer-move processed while the interaction is dragging, in either engine:
  the raw delta is the pointer position minus the anchor minus the committed offset, on
  each axis, and it is what the \<open>drag\<close> chain is handed as the proposal; when the chain
  is not vetoed, the new offset is the old one plus what the chain left in the proposal,
  an absent axis counting as zero; when it is vetoed (or a hook's error escapes), the
  offset stays. In the single-instance engine the committed move dispatches one
  \<open>neodrag\<close> notification, and it carries the new committed offset; a move that is not
  committed dispatches none. (The delegated engine dispatches no notification at all.)
\<close>

theorem per_move_commit:
  "(is_interacting s \<and> is_dragging s \<longrightarrow>
      delta_x (propose_delta e s) = clientX e - initial_x s - x_offset s \<and>
      delta_y (propose_delta e s) = clientY e - initial_y s - y_offset s \<and>
      proposals_x (propose_delta e s) = Some (clientX e - initial_x s - x_offset s) \<and>
      proposals_y (propose_delta e s) = Some (clientY e - initial_y s - y_offset s) \<and>
      (fst (run_plugins Drag e (propose_delta e s)) = Ran True \<longrightarrow>
         fst (pointermove e s) = None \<and>
         x_offset (snd (pointermove e s)) =
           x_offset s + or_zero (proposals_x (snd (run_plugins Drag e (propose_delta e s)))) \<and>
         y_offset (snd (pointermove e s)) =
           y_offset s + or_zero (proposals_y (snd (run_plugins Drag e (propose_delta e s)))) \<and>
         notifications (snd (pointermove e s)) =
           notifications s @ [Neodrag (x_offset (snd (pointermove e s))) (y_offset (snd (pointermove e s)))]) \<and>
      (fst (run_plugins Drag e (propose_delta e s)) \<noteq> Ran True \<longrightarrow>
         x_offset (snd (pointermove e s)) = x_offset s \<and>
         y_offset (snd (pointermove e s)) = y_offset s \<and>
         notifications (snd (pointermove e s)) = notifications s)) \<and>
   (ctx_isInteracting i \<and> ctx_isDragging i \<longrightarrow>
      (let i0 = inst_propose_delta e (i\<lparr>ctx_lastEvent := Some e\<rparr>);
           chain = inst_run_plugins cfg Drag e i0
       in ctx_delta_x i0 = clientX e - ctx_initial_x i - ctx_offset_x i \<and>
          ctx_delta_y i0 = clientY e - ctx_initial_y i - ctx_offset_y i \<and>
          ctx_proposed_x i0 = Some (clientX e - ctx_initial_x i - ctx_offset_x i) \<and>
          ctx_proposed_y i0 = Some (clientY e - ctx_initial_y i - ctx_offset_y i) \<and>
          (fst chain \<longrightarrow>
             ctx_offset_x (inst_pointer_move cfg e i) = ctx_offset_x i + or_zero (ctx_proposed_x (snd chain)) \<and>
             ctx_offset_y (inst_pointer_move cfg e i) = ctx_offset_y i + or_zero (ctx_proposed_y (snd chain))) \<and>
          (\<not> fst chain \<longrightarrow>
             ctx_offset_x (inst_pointer_move cfg e i) = ctx_offset_x i \<and>
             ctx_offset_y (inst_pointer_move cfg e i) = ctx_offset_y i)))"
proof (intro conjI impI)
  assume a: "is_interacting s \<and> is_dragging s"
  then have pm: "pointermove e s = drag_step e s"
    by (simp add: pointermove_def)
  show "delta_x (propose_delta e s) = clientX e - initial_x s - x_offset s"
    and "delta_y (propose_delta e s) = clientY e - initial_y s - y_offset s"
    and "proposals_x (propose_delta e s) = Some (clientX e - initial_x s - x_offset s)"
    and "proposals_y (propose_delta e s) = Some (clientY e - initial_y s - y_offset s)"
    by (simp_all add: propose_delta_def Let_def)
  {
    assume ok: "fst (run_plugins Drag e (propose_delta e s)) = Ran True"
    show "fst (pointermove e s) = None"
      and "x_offset (snd (pointermove e s)) =
             x_offset s + or_zero (proposals_x (snd (run_plugins Drag e (propose_delta e s))))"
      and "y_offset (snd (pointermove e s)) =
             y_offset s + or_zero (proposals_y (snd (run_plugins Drag e (propose_delta e s))))"
      and "notifications (snd (pointermove e s)) =
             notifications s @ [Neodrag (x_offset (snd (pointermove e s))) (y_offset (snd (pointermove e s)))]"
      using drag_step_committed[OF ok] by (simp_all add: pm)
  }
  {
    assume no: "fst (run_plugins Drag e (propose_delta e s)) \<noteq> Ran True"
    show "x_offset (snd (pointermove e s)) = x_offset s"
      and "y_offset (snd (pointermove e s)) = y_offset s"
      and "notifications (snd (pointermove e s)) = notifications s"
      using drag_step_not_committed[OF no] by (simp_all add: pm)
  }
next
  assume a: "ctx_isInteracting i \<and> ctx_isDragging i"
  define j where "j = i\<lparr>ctx_lastEvent := Some e\<rparr>"
  have pm: "inst_pointer_move cfg e i = inst_drag_step cfg e j"
    using a by (simp add: inst_pointer_move_def Let_def j_def)
  have j: "ctx_offset_x j = ctx_offset_x i" "ctx_offset_y j = ctx_offset_y i"
      "ctx_initial_x j = ctx_initial_x i" "ctx_initial_y j = ctx_initial_y i"
    by (simp_all add: j_def)
  have d: "ctx_delta_x (inst_propose_delta e j) = clientX e - ctx_initial_x i - ctx_offset_x i"
      "ctx_delta_y (inst_propose_delta e j) = clientY e - ctx_initial_y i - ctx_offset_y i"
      "ctx_proposed_x (inst_propose_delta e j) = Some (clientX e - ctx_initial_x i - ctx_offset_x i)"
      "ctx_proposed_y (inst_propose_delta e j) = Some (clientY e - ctx_initial_y i - ctx_offset_y i)"
    by (simp_all add: inst_propose_delta_def Let_def j)
  show "let i0 = inst_propose_delta e (i\<lparr>ctx_lastEvent := Some e\<rparr>);
            chain = inst_run_plugins cfg Drag e i0
        in ctx_delta_x i0 = clientX e - ctx_initial_x i - ctx_offset_x i \<and>
           ctx_delta_y i0 = clientY e - ctx_initial_y i - ctx_offset_y i \<and>
           ctx_proposed_x i0 = Some (clientX e - ctx_initial_x i - ctx_offset_x i) \<and>
           ctx_proposed_y i0 = Some (clientY e - ctx_initial_y i - ctx_offset_y i) \<and>
           (fst chain \<longrightarrow>
              ctx_offset_x (inst_pointer_move cfg e i) = ctx_offset_x i + or_zero (ctx_proposed_x (snd chain)) \<and>
              ctx_offset_y (inst_pointer_move cfg e i) = ctx_offset_y i + or_zero (ctx_proposed_y (snd chain))) \<and>
           (\<not> fst chain \<longrightarrow>
              ctx_offset_x (inst_pointer_move cfg e i) = ctx_offset_x i \<and>
              ctx_offset_y (inst_pointer_move cfg e i) = ctx_offset_y i)"
    unfolding Let_def j_def[symmetric] pm
    using d inst_drag_step_committed[of cfg e j] inst_drag_step_not_committed[of cfg e j]
    by (simp add: j)
qed

lemmas engine_eval =
  ev_def listeners_def initial_engine_def plugin_map_def register_def sort_ascending_def
  prio_def pointerdown_def pointermove_def pointerup_def run_plugins_def call_handler_def
  ctx_calls_def ctx_def check_thresholds_def try_start_drag_def drag_step_def
  propose_delta_def flush_effects_def clear_effects_def reset_state_def call_event_def
  or_zero_def truthy_def quiet_def set_add_def Let_def draggable_def

lemmas instance_eval =
  ev_def new_instance_def inst_pointer_move_def inst_start_drag_def inst_pointer_up_def
  inst_drag_step_def
  inst_propose_delta_def inst_run_plugins_def inst_call_handler_def inst_ctx_calls_def
  inst_ctx_def inst_flush_effects_def inst_clear_effects_def report_error_def
  or_zero_def truthy_def quiet_def set_add_def Let_def prio_def

lemmas grid_eval = grid_def snap_to_grid_def calc_def

theorem per_move_commit_witness:
  "is_interacting grid_engine \<and> is_dragging grid_engine \<and>
   x_offset grid_engine = 20 \<and> y_offset grid_engine = 30 \<and>
   fst (run_plugins Drag (ev 30 30) (propose_delta (ev 30 30) grid_engine)) = Ran True \<and>
   proposals_x (snd (run_plugins Drag (ev 30 30) (propose_delta (ev 30 30) grid_engine))) = Some 10 \<and>
   proposals_y (snd (run_plugins Drag (ev 30 30) (propose_delta (ev 30 30) grid_engine))) = Some 0 \<and>
   x_offset (snd (pointermove (ev 30 30) grid_engine)) = 30 \<and>
   y_offset (snd (pointermove (ev 30 30) grid_engine)) = 30 \<and>
   notifications (snd (pointermove (ev 30 30) grid_engine)) =
     [Neodrag_start 0 0, Neodrag 20 30, Neodrag 30 30] \<and>
   ctx_isInteracting grid_instance \<and> ctx_isDragging grid_instance \<and>
   ctx_offset_x grid_instance = 20 \<and> ctx_offset_y grid_instance = 30 \<and>
   fst (inst_run_plugins plain_factory Drag (ev 30 30)
          (inst_propose_delta (ev 30 30) (grid_instance\<lparr>ctx_lastEvent := Some (ev 30 30)\<rparr>))) \<and>
   ctx_offset_x (inst_pointer_move plain_factory (ev 30 30) grid_instance) = 30 \<and>
   ctx_offset_y (inst_pointer_move plain_factory (ev 30 30) grid_instance) = 30"
proof -
  let ?e = "ev 30 30"
  let ?chain = "run_plugins Drag ?e (propose_delta ?e grid_engine)"
  let ?ichain = "inst_run_plugins plain_factory Drag ?e
                   (inst_propose_delta ?e (grid_instance\<lparr>ctx_lastEvent := Some ?e\<rparr>))"
  have s: "is_interacting grid_engine \<and> is_dragging grid_engine"
    and o: "x_offset grid_engine = 20" "y_offset grid_engine = 30"
    and n: "notifications grid_engine = [Neodrag_start 0 0, Neodrag 20 30]"
    by (simp_all add: grid_engine_def grid_options_def engine_eval grid_eval)
  have c: "fst ?chain = Ran True" "proposals_x (snd ?chain) = Some 10"
      "proposals_y (snd ?chain) = Some 0"
    by (simp_all add: grid_engine_def grid_options_def engine_eval grid_eval)
  have i: "ctx_isInteracting grid_instance \<and> ctx_isDragging grid_instance"
    and io: "ctx_offset_x grid_instance = 20" "ctx_offset_y grid_instance = 30"
    by (simp_all add: grid_instance_def plain_factory_def instance_eval grid_eval)
  have ic: "fst ?ichain" "ctx_proposed_x (snd ?ichain) = Some 10"
      "ctx_proposed_y (snd ?ichain) = Some 0"
    by (simp_all add: grid_instance_def plain_factory_def instance_eval grid_eval)
  note t = per_move_commit[where s = grid_engine and e = ?e and i = grid_instance
      and cfg = plain_factory]
  have m: "x_offset (snd (pointermove ?e grid_engine)) = 30"
      "y_offset (snd (pointermove ?e grid_engine)) = 30"
      "notifications (snd (pointermove ?e grid_engine)) =
         [Neodrag_start 0 0, Neodrag 20 30, Neodrag 30 30]"
    using t s c o n by (simp_all add: or_zero_def)
  have im: "ctx_offset_x (inst_pointer_move plain_factory ?e grid_instance) = 30"
      "ctx_offset_y (inst_pointer_move plain_factory ?e grid_instance) = 30"
    using t i ic io by (simp_all add: or_zero_def Let_def)
  show ?thesis
    using s o c m i io ic im by simp
qed

subsection \<open>Pointer-up\<close>

lemmas manager_eval =
  perform_all_def attach_def createDraggable_def initialize_plugins_def register_ge_def
  sort_descending_def handle_pointer_down_def handle_pointer_move_def handle_pointer_up_def
  find_draggable_node_def instances_get_def store_def cleanup_active_node_def
  plain_factory_def


lemma pointerup_outcome:
  assumes "is_interacting s"
  shows "fst (pointerup e s) =
           (case fst (run_plugins DragEnd e s) of Uncaught err \<Rightarrow> Some err | Ran b \<Rightarrow> None)"
    and "hook_calls (snd (pointerup e s)) = hook_calls (snd (run_plugins DragEnd e s))"
    and "fst (pointerup e s) = None \<Longrightarrow>
           \<not> is_interacting (snd (pointerup e s)) \<and> \<not> is_dragging (snd (pointerup e s))"
proof -
  obtain r s1 where c: "run_plugins DragEnd e s = (r, s1)"
    by (cases "run_plugins DragEnd e s")
  show "fst (pointerup e s) =
          (case fst (run_plugins DragEnd e s) of Uncaught err \<Rightarrow> Some err | Ran b \<Rightarrow> None)"
    using assms by (cases r) (simp_all add: pointerup_def c Let_def)
  show "hook_calls (snd (pointerup e s)) = hook_calls (snd (run_plugins DragEnd e s))"
    using assms
    by (cases r)
      (simp_all add: pointerup_def c Let_def reset_state_def clear_effects_def call_event_def)
  show "fst (pointerup e s) = None \<Longrightarrow>
          \<not> is_interacting (snd (pointerup e s)) \<and> \<not> is_dragging (snd (pointerup e s))"
    using assms
    by (cases r)
      (simp_all add: pointerup_def c Let_def reset_state_def clear_effects_def call_event_def)
qed






subsection \<open>Hook exceptions in the delegated engine\<close>



lemma inst_ctx_calls_log:
  "invoked (inst_ctx_calls as i) = invoked i \<and> reported (inst_ctx_calls as i) = reported i"
  unfolding inst_ctx_calls_def
proof (induction as arbitrary: i)
  case Nil
  show ?case by simp
next
  case (Cons a as)
  have "invoked (inst_ctx_call a i) = invoked i \<and> reported (inst_ctx_call a i) = reported i"
    by (cases a) simp_all
  then show ?case using Cons[of "inst_ctx_call a i"] by simp
qed

lemma inst_call_handler_log:
  "invoked (snd (inst_call_handler p h f e i)) = invoked i @ [(ident p, During h)]"
  "reported (snd (inst_call_handler p h f e i)) = reported i"
  using inst_ctx_calls_log[of "acts (f (inst_ctx i) (states i (name p)) e)"
      "i\<lparr>invoked := invoked i @ [(ident p, During h)]\<rparr>"]
  by (simp_all add: inst_call_handler_def Let_def)


















subsection \<open>The cancellation flag of the delegated engine\<close>

lemma inst_ctx_call_flag:
  "current_drag_hook_cancelled i \<Longrightarrow> current_drag_hook_cancelled (inst_ctx_call a i)"
  by (cases a) simp_all

lemma inst_ctx_calls_flag:
  "current_drag_hook_cancelled i \<Longrightarrow> current_drag_hook_cancelled (inst_ctx_calls as i)"
  unfolding inst_ctx_calls_def
  by (induction as arbitrary: i) (simp_all add: inst_ctx_call_flag)

lemma inst_call_handler_flag:
  "current_drag_hook_cancelled i \<Longrightarrow> current_drag_hook_cancelled (snd (inst_call_handler p h f e i))"
  using inst_ctx_calls_flag[of "i\<lparr>invoked := invoked i @ [(ident p, During h)]\<rparr>"]
  by (simp add: inst_call_handler_def Let_def)

lemma inst_run_plugins_loop_flag:
  "current_drag_hook_cancelled i \<Longrightarrow>
   current_drag_hook_cancelled (snd (inst_run_plugins_loop cfg ps h e i))"
proof (induction ps arbitrary: i)
  case Nil
  then show ?case by simp
next
  case (Cons p ps)
  show ?case
  proof (cases "handler_of h p")
    case None
    then show ?thesis using Cons by simp
  next
    case (Some f)
    show ?thesis
    proof (cases "cancelable p \<noteq> Some False")
      case True
      then show ?thesis using Some Cons by simp
    next
      case False
      obtain r i1 where c: "inst_call_handler p h f e i = (r, i1)"
        by (cases "inst_call_handler p h f e i")
      have f1: "current_drag_hook_cancelled i1"
        using inst_call_handler_flag[OF Cons.prems, of p h f e] c by simp
      show ?thesis
        using Some False c f1 Cons.IH[OF f1] by (cases r) (auto simp: report_error_def)
    qed
  qed
qed

lemma inst_run_plugins_flag:
  "current_drag_hook_cancelled i \<Longrightarrow> current_drag_hook_cancelled (snd (inst_run_plugins cfg h e i))"
  using inst_run_plugins_loop_flag[of "i\<lparr>dragstart_prevented := False\<rparr>" cfg "plugins i" h e]
  by (simp add: inst_run_plugins_def)

lemma inst_effects_flag:
  "current_drag_hook_cancelled (inst_flush_effects i) = current_drag_hook_cancelled i"
  "current_drag_hook_cancelled (inst_clear_effects i) = current_drag_hook_cancelled i"
  by (simp_all add: inst_flush_effects_def inst_clear_effects_def)

lemma inst_drag_step_flag:
  assumes "current_drag_hook_cancelled i"
  shows "current_drag_hook_cancelled (inst_drag_step cfg e i)"
proof -
  obtain b i1 where c: "inst_run_plugins cfg Drag e (inst_propose_delta e i) = (b, i1)"
    by (cases "inst_run_plugins cfg Drag e (inst_propose_delta e i)")
  have "current_drag_hook_cancelled (inst_propose_delta e i)"
    using assms by (simp add: inst_propose_delta_def Let_def)
  from inst_run_plugins_flag[OF this, of cfg Drag e] have "current_drag_hook_cancelled i1"
    using c by simp
  then show ?thesis
    by (cases b) (simp_all add: inst_drag_step_def c Let_def inst_effects_flag)
qed

lemma inst_pointer_move_flag:
  assumes "current_drag_hook_cancelled i"
  shows "current_drag_hook_cancelled (inst_pointer_move cfg e i)"
proof (cases "ctx_isInteracting i")
  case False
  then show ?thesis using assms by (simp add: inst_pointer_move_def)
next
  case True
  let ?i0 = "i\<lparr>ctx_lastEvent := Some e\<rparr>"
  have a: "current_drag_hook_cancelled ?i0" using assms by simp
  show ?thesis
  proof (cases "ctx_isDragging i")
    case True
    then show ?thesis
      using \<open>ctx_isInteracting i\<close> inst_drag_step_flag[OF a, of cfg e]
      by (simp add: inst_pointer_move_def Let_def)
  next
    case False
    let ?i1 = "snd (inst_run_plugins cfg Drag e (?i0\<lparr>dragstart_prevented := False\<rparr>))"
    have b: "current_drag_hook_cancelled ?i1"
      using inst_run_plugins_flag[of "?i0\<lparr>dragstart_prevented := False\<rparr>" cfg Drag e] assms
      by simp
    then show ?thesis
      using \<open>ctx_isInteracting i\<close> False by (simp add: inst_pointer_move_def Let_def)
  qed
qed

lemma inst_pointer_up_flag:
  assumes "current_drag_hook_cancelled i"
  shows "current_drag_hook_cancelled (inst_pointer_up cfg e i)"
  using inst_run_plugins_flag[OF assms, of cfg DragEnd e] assms
  by (simp add: inst_pointer_up_def Let_def inst_flush_effects_def inst_clear_effects_def)

lemma flag_kept_refl: "flag_kept m m"
  by (auto simp: flag_kept_def)

lemma flag_kept_trans: "flag_kept m m' \<Longrightarrow> flag_kept m' m'' \<Longrightarrow> flag_kept m m''"
  unfolding flag_kept_def by blast

lemma flag_kept_store:
  assumes "heap m r = Some i"
    and "current_drag_hook_cancelled i \<Longrightarrow> current_drag_hook_cancelled i'"
  shows "flag_kept m (store r i' m)"
  using assms by (auto simp: flag_kept_def store_def)

lemma flag_kept_fields:
  "heap m' = heap m \<Longrightarrow> flag_kept m m'"
  by (auto simp: flag_kept_def)

lemma instances_get_heap: "instances_get m n = Some (r, i) \<Longrightarrow> heap m r = Some i"
  by (auto simp: instances_get_def split: option.splits)

lemma handle_pointer_move_kept: "flag_kept m (snd (handle_pointer_move cfg e m))"
  by (auto simp: handle_pointer_move_def flag_kept_refl inst_pointer_move_flag
      intro!: flag_kept_store dest: instances_get_heap split: option.splits)

lemma handle_pointer_up_kept: "flag_kept m (snd (handle_pointer_up cfg e m))"
  by (auto simp: handle_pointer_up_def flag_kept_refl inst_pointer_up_flag
      intro!: flag_kept_store dest: instances_get_heap split: option.splits)

lemma cleanup_active_node_kept: "flag_kept m (cleanup_active_node m)"
proof (cases "active_node m")
  case None
  then show ?thesis by (simp add: cleanup_active_node_def flag_kept_refl)
next
  case (Some n)
  show ?thesis
  proof (cases "instances_get m n")
    case None
    then show ?thesis using Some by (simp add: cleanup_active_node_def flag_kept_refl)
  next
    case (Some ri)
    obtain r i where ri: "ri = (r, i)" by (cases ri)
    have h: "heap m r = Some i" using Some ri instances_get_heap by fastforce
    show ?thesis
      using \<open>active_node m = Some n\<close> Some ri h
      by (auto simp: cleanup_active_node_def flag_kept_def store_def inst_clear_effects_def)
  qed
qed


lemma report_error_flag:
  "current_drag_hook_cancelled (report_error cfg info i) = current_drag_hook_cancelled i"
  by (simp add: report_error_def)

lemma handle_pointer_down_kept: "flag_kept m (snd (handle_pointer_down cfg e m))"
proof (cases "button e = 2 \<or> find_draggable_node e m = None")
  case True
  then show ?thesis by (auto simp: handle_pointer_down_def flag_kept_refl)
next
  case False
  then obtain n where n: "button e \<noteq> 2" "find_draggable_node e m = Some n" by auto
  show ?thesis
  proof (cases "instances_get m n")
    case None
    then show ?thesis using n by (simp add: handle_pointer_down_def flag_kept_refl)
  next
    case (Some ri)
    obtain r i where ri: "ri = (r, i)" by (cases ri)
    have h: "heap m r = Some i" using Some ri instances_get_heap by fastforce
    obtain b i1 where c: "inst_run_plugins cfg ShouldDrag e i = (b, i1)"
      by (cases "inst_run_plugins cfg ShouldDrag e i")
    have f1: "current_drag_hook_cancelled i \<Longrightarrow> current_drag_hook_cancelled i1"
      using inst_run_plugins_flag[of i cfg ShouldDrag e] c by simp
    show ?thesis
    proof (cases b)
      case False
      then show ?thesis
        using n Some ri c flag_kept_store[OF h f1]
        by (simp add: handle_pointer_down_def)
    next
      case True
      show ?thesis
        using n Some ri c True h f1
        by (auto simp: handle_pointer_down_def Let_def flag_kept_def store_def
            cleanup_active_node_def instances_get_def inst_clear_effects_def report_error_def
            split: option.splits)
    qed
  qed
qed

lemma run_cleanup_flag:
  "current_drag_hook_cancelled i \<Longrightarrow> current_drag_hook_cancelled (snd (run_cleanup d p i))"
proof (cases "cleanup p")
  case None
  assume "current_drag_hook_cancelled i"
  then show ?thesis using None by (simp add: run_cleanup_def)
next
  case (Some c)
  assume a: "current_drag_hook_cancelled i"
  have "current_drag_hook_cancelled (inst_ctx_calls as i)" for as
    using a by (rule inst_ctx_calls_flag)
  then show ?thesis
    using Some by (simp add: run_cleanup_def Let_def split: hook_ret.splits)
qed

lemma cleanup_loop_flag:
  "current_drag_hook_cancelled i \<Longrightarrow> current_drag_hook_cancelled (snd (cleanup_loop d ps i))"
proof (induction ps arbitrary: i)
  case Nil
  then show ?case by simp
next
  case (Cons p ps)
  obtain x i1 where c: "run_cleanup d p i = (x, i1)" by (cases "run_cleanup d p i")
  have "current_drag_hook_cancelled i1"
    using run_cleanup_flag[OF Cons.prems, of d p] c by simp
  then show ?case
    using c Cons.IH[of i1] by (cases x) simp_all
qed

lemma update_plugin_flag:
  assumes "current_drag_hook_cancelled i"
  shows "current_drag_hook_cancelled (snd (snd (update_plugin old new i)))"
proof -
  let ?same = "case old of None \<Rightarrow> False | Some q \<Rightarrow> ident q = ident new"
  let ?c = "case old of None \<Rightarrow> (None, i) | Some q \<Rightarrow> if ?same then (None, i) else run_cleanup True q i"
  obtain x i1 where c: "?c = (x, i1)" by (cases ?c)
  have f1: "current_drag_hook_cancelled i1"
  proof (cases old)
    case None
    then show ?thesis using c assms by simp
  next
    case (Some q)
    then show ?thesis
      using c assms run_cleanup_flag[OF assms, of True q] by (auto split: if_splits)
  qed
  have f2: "current_drag_hook_cancelled (inst_ctx_calls as (i1\<lparr>invoked := l\<rparr>))" for as l
    using f1 inst_ctx_calls_flag[of "i1\<lparr>invoked := l\<rparr>" as] by simp
  show ?thesis
  proof (cases "?same \<and> \<not> liveUpdate new")
    case True
    then show ?thesis using assms by (simp add: update_plugin_def)
  next
    case False
    show ?thesis
    proof (cases x)
      case (Some err)
      then show ?thesis using False c f1 by (auto simp: update_plugin_def Let_def)
    next
      case None
      then show ?thesis
        using False c f1 f2
        by (auto simp: update_plugin_def Let_def inst_flush_effects_def inst_clear_effects_def
            split: option.splits)
    qed
  qed
qed

lemma update_loop_flag:
  "current_drag_hook_cancelled i \<Longrightarrow>
   current_drag_hook_cancelled (snd (snd (update_loop olds ps hc i)))"
proof (induction ps arbitrary: i hc)
  case Nil
  then show ?case by simp
next
  case (Cons p ps)
  obtain x b i1 where c: "update_plugin (old_plugin_map_get olds (name p)) p i = (x, b, i1)"
    by (cases "update_plugin (old_plugin_map_get olds (name p)) p i") auto
  have "current_drag_hook_cancelled i1"
    using update_plugin_flag[OF Cons.prems, of "old_plugin_map_get olds (name p)" p] c by simp
  then show ?case
    using c Cons.IH[of i1] by (cases x) simp_all
qed

lemma update_kept: "flag_kept m (snd (update cfg r ps m))"
proof (cases "heap m r")
  case None
  then show ?thesis by (simp add: update_def flag_kept_refl)
next
  case (Some i)
  let ?new = "initialize_plugins cfg ps"
  show ?thesis
  proof (cases "ctx_isDragging i \<or> ctx_isInteracting i")
    case True
    obtain x b i1 where c: "update_loop (plugins i) (filter liveUpdate ?new) False i = (x, b, i1)"
      by (cases "update_loop (plugins i) (filter liveUpdate ?new) False i") auto
    have f1: "current_drag_hook_cancelled i \<Longrightarrow> current_drag_hook_cancelled i1"
      using update_loop_flag[of i "plugins i" "filter liveUpdate ?new" False] c by simp
    have k: "flag_kept m (store r i1 m)"
      using flag_kept_store[OF Some f1] .
    have k2: "flag_kept m (snd (handle_pointer_move cfg ev (store r i1 m)))" for ev
      using k handle_pointer_move_kept[of "store r i1 m" cfg ev] by (rule flag_kept_trans)
    show ?thesis
      using Some True c k k2
      by (cases x) (auto simp: update_def Let_def split: option.splits)
  next
    case False
    let ?removed = "filter (\<lambda>p. \<not> list_ex (\<lambda>np. name np = name p) ?new) (plugins i)"
    obtain x i1 where c: "cleanup_loop True ?removed i = (x, i1)"
      by (cases "cleanup_loop True ?removed i")
    have f1: "current_drag_hook_cancelled i \<Longrightarrow> current_drag_hook_cancelled i1"
      using cleanup_loop_flag[of i True ?removed] c by simp
    obtain y b i2 where u: "update_loop (plugins i) ?new (?removed \<noteq> []) i1 = (y, b, i2)"
      by (cases "update_loop (plugins i) ?new (?removed \<noteq> []) i1") auto
    have f2: "current_drag_hook_cancelled i1 \<Longrightarrow> current_drag_hook_cancelled i2"
      using update_loop_flag[of i1 "plugins i" ?new "?removed \<noteq> []"] u by simp
    have k1: "flag_kept m (store r i1 m)"
      using flag_kept_store[OF Some f1] .
    have k2: "flag_kept m (store r i2 m)"
      using flag_kept_store[OF Some] f1 f2 by blast
    have k3: "flag_kept m (store r (i2\<lparr>plugins := ?new\<rparr>) m)"
      using flag_kept_store[OF Some, of "i2\<lparr>plugins := ?new\<rparr>"] f1 f2 by simp
    show ?thesis
      using Some False c u k1 k2 k3
      by (cases x; cases y) (auto simp: update_def Let_def)
  qed
qed

lemma destroy_kept: "flag_kept m (snd (destroy r m))"
proof (cases "heap m r")
  case None
  then show ?thesis by (simp add: destroy_def flag_kept_refl)
next
  case (Some i)
  obtain x i1 where c: "cleanup_loop False (plugins i) i = (x, i1)"
    by (cases "cleanup_loop False (plugins i) i")
  have f1: "current_drag_hook_cancelled i \<Longrightarrow> current_drag_hook_cancelled i1"
    using cleanup_loop_flag[of i False "plugins i"] c by simp
  show ?thesis
    using Some c f1
    by (cases x) (auto simp: destroy_def Let_def flag_kept_def store_def)
qed

lemma attach_kept: "fresh m \<Longrightarrow> flag_kept m (snd (attach cfg n ps m))"
  by (auto simp: attach_def Let_def flag_kept_def fresh_def)

lemma store_fresh: "heap m r = Some i \<Longrightarrow> fresh m \<Longrightarrow> fresh (store r i' m)"
  by (auto simp: fresh_def store_def)

lemma fresh_fields: "heap m' = heap m \<Longrightarrow> next_ref m' = next_ref m \<Longrightarrow> fresh m \<Longrightarrow> fresh m'"
  by (simp add: fresh_def)

lemma store_dom:
  "heap m r = Some i \<Longrightarrow>
   next_ref (store r i' m) = next_ref m \<and> (\<forall>q. heap (store r i' m) q = None \<longleftrightarrow> heap m q = None)"
  by (auto simp: store_def)

lemma handle_pointer_move_dom:
  "next_ref (snd (handle_pointer_move cfg e m)) = next_ref m \<and>
   (\<forall>q. heap (snd (handle_pointer_move cfg e m)) q = None \<longleftrightarrow> heap m q = None)"
  by (auto simp: handle_pointer_move_def store_def dest: instances_get_heap split: option.splits)

lemma handle_pointer_up_dom:
  "next_ref (snd (handle_pointer_up cfg e m)) = next_ref m \<and>
   (\<forall>q. heap (snd (handle_pointer_up cfg e m)) q = None \<longleftrightarrow> heap m q = None)"
  by (auto simp: handle_pointer_up_def store_def dest: instances_get_heap split: option.splits)

lemma handle_pointer_down_dom:
  "next_ref (snd (handle_pointer_down cfg e m)) = next_ref m \<and>
   (\<forall>q. heap (snd (handle_pointer_down cfg e m)) q = None \<longleftrightarrow> heap m q = None)"
proof (cases "button e = 2 \<or> find_draggable_node e m = None")
  case True
  then show ?thesis by (auto simp: handle_pointer_down_def)
next
  case False
  then obtain n where n: "button e \<noteq> 2" "find_draggable_node e m = Some n" by auto
  show ?thesis
  proof (cases "instances_get m n")
    case None
    then show ?thesis using n by (simp add: handle_pointer_down_def)
  next
    case (Some ri)
    obtain r i where ri: "ri = (r, i)" by (cases ri)
    have h: "heap m r = Some i" using Some ri instances_get_heap by fastforce
    obtain b i1 where c: "inst_run_plugins cfg ShouldDrag e i = (b, i1)"
      by (cases "inst_run_plugins cfg ShouldDrag e i")
    show ?thesis
      using n Some ri c h
      by (cases b)
        (auto simp: handle_pointer_down_def Let_def store_def cleanup_active_node_def
          instances_get_def split: option.splits)
  qed
qed

lemma update_dom:
  "next_ref (snd (update cfg r ps m)) = next_ref m \<and>
   (\<forall>q. heap (snd (update cfg r ps m)) q = None \<longleftrightarrow> heap m q = None)"
proof (cases "heap m r")
  case None
  then show ?thesis by (simp add: update_def)
next
  case (Some i)
  have s: "next_ref (store r i' m) = next_ref m \<and>
           (\<forall>q. heap (store r i' m) q = None \<longleftrightarrow> heap m q = None)" for i'
    using store_dom[OF Some] .
  have mv: "next_ref (snd (handle_pointer_move cfg ev (store r i' m))) = next_ref m \<and>
            (\<forall>q. heap (snd (handle_pointer_move cfg ev (store r i' m))) q = None \<longleftrightarrow> heap m q = None)"
    for ev i'
    using handle_pointer_move_dom[of cfg ev "store r i' m"] s[of i'] by simp
  show ?thesis
    using Some s mv
    by (simp add: update_def Let_def split: option.splits prod.splits)
qed

lemma destroy_dom:
  "next_ref (snd (destroy r m)) = next_ref m \<and>
   (\<forall>q. heap (snd (destroy r m)) q = None \<longleftrightarrow> heap m q = None)"
  by (auto simp: destroy_def Let_def store_def split: option.splits prod.splits)

lemma attach_fresh: "fresh m \<Longrightarrow> fresh (snd (attach cfg n ps m))"
  by (auto simp: attach_def Let_def fresh_def)

lemma perform_fresh: "fresh m \<Longrightarrow> fresh (perform cfg opn m)"
proof (cases opn)
  case (Attach n ps)
  assume "fresh m"
  then show ?thesis using Attach attach_fresh by simp
next
  case (Update r ps)
  assume "fresh m"
  then show ?thesis using Update update_dom[of cfg r ps m] by (simp add: fresh_def)
next
  case (Destroy r)
  assume "fresh m"
  then show ?thesis using Destroy destroy_dom[of r m] by (simp add: fresh_def)
next
  case (PointerDown e)
  assume "fresh m"
  then show ?thesis using PointerDown handle_pointer_down_dom[of cfg e m] by (simp add: fresh_def)
next
  case (PointerMove e)
  assume "fresh m"
  then show ?thesis using PointerMove handle_pointer_move_dom[of cfg e m] by (simp add: fresh_def)
next
  case (PointerUp e)
  assume "fresh m"
  then show ?thesis using PointerUp handle_pointer_up_dom[of cfg e m] by (simp add: fresh_def)
qed

lemma perform_kept: "fresh m \<Longrightarrow> flag_kept m (perform cfg opn m)"
  by (cases opn)
    (simp_all add: attach_kept update_kept destroy_kept handle_pointer_down_kept
      handle_pointer_move_kept handle_pointer_up_kept)

lemma perform_all_kept: "fresh m \<Longrightarrow> flag_kept m (perform_all cfg ops m) \<and> fresh (perform_all cfg ops m)"
  unfolding perform_all_def
proof (induction ops arbitrary: m)
  case Nil
  then show ?case by (simp add: flag_kept_refl)
next
  case (Cons opn ops)
  have f: "fresh (perform cfg opn m)" using Cons.prems by (rule perform_fresh)
  have k: "flag_kept m (perform cfg opn m)" using Cons.prems by (rule perform_kept)
  show ?case
    using Cons.IH[OF f] k by (auto intro: flag_kept_trans)
qed

lemma createDraggable_fresh: "fresh createDraggable"
  by (simp add: fresh_def createDraggable_def)

text \<open>Once the flag is set, a chain invokes only hooks of plugins marked non-cancelable.\<close>

lemma inst_run_plugins_loop_skips:
  assumes "current_drag_hook_cancelled i"
  shows "\<exists>cs. invoked (snd (inst_run_plugins_loop cfg ps h e i)) = invoked i @ cs \<and>
               (\<forall>c \<in> set cs. \<exists>p \<in> set ps. c = (ident p, During h) \<and> cancelable p = Some False)"
  using assms
proof (induction ps arbitrary: i)
  case Nil
  then show ?case by simp
next
  case (Cons p ps)
  show ?case
  proof (cases "handler_of h p")
    case None
    then show ?thesis using Cons.IH[OF Cons.prems] by auto
  next
    case (Some f)
    show ?thesis
    proof (cases "cancelable p \<noteq> Some False")
      case True
      then show ?thesis using Some Cons.IH[OF Cons.prems] Cons.prems by auto
    next
      case False
      obtain r i1 where c: "inst_call_handler p h f e i = (r, i1)"
        by (cases "inst_call_handler p h f e i")
      have f1: "current_drag_hook_cancelled i1"
        using inst_call_handler_flag[OF Cons.prems, of p h f e] c by simp
      have l: "invoked i1 = invoked i @ [(ident p, During h)]"
        using inst_call_handler_log(1)[of p h f e i] c by simp
      from Cons.IH[OF f1] obtain cs where
        cs: "invoked (snd (inst_run_plugins_loop cfg ps h e i1)) = invoked i1 @ cs"
          "\<forall>c \<in> set cs. \<exists>p \<in> set ps. c = (ident p, During h) \<and> cancelable p = Some False"
        by blast
      show ?thesis
      proof (cases r)
        case RetOther
        have "invoked (snd (inst_run_plugins_loop cfg (p # ps) h e i)) =
                invoked i @ ((ident p, During h) # cs)"
          using Some False c RetOther cs(1) l by simp
        moreover have "\<forall>c \<in> set ((ident p, During h) # cs).
                         \<exists>q \<in> set (p # ps). c = (ident q, During h) \<and> cancelable q = Some False"
          using cs(2) False by auto
        ultimately show ?thesis by blast
      next
        case RetFalse
        have "invoked (snd (inst_run_plugins_loop cfg (p # ps) h e i)) =
                invoked i @ [(ident p, During h)]"
          using Some False c RetFalse l by simp
        then show ?thesis using False by auto
      next
        case (Threw err)
        have "invoked (snd (inst_run_plugins_loop cfg (p # ps) h e i)) =
                invoked i @ [(ident p, During h)]"
          using Some False c Threw l by (simp add: report_error_def)
        then show ?thesis using False by auto
      qed
    qed
  qed
qed

lemma inst_run_plugins_loop_all_skipped:
  assumes "current_drag_hook_cancelled i" and "\<forall>p \<in> set ps. cancelable p \<noteq> Some False"
  shows "inst_run_plugins_loop cfg ps h e i = (True, i)"
  using assms by (induction ps) (auto split: option.splits)

text \<open>
  C10. In the delegated engine \<open>cancel()\<close> sets the instance's
  \<open>current_drag_hook_cancelled\<close> flag, and nothing ever clears it: not a hook chain, not a
  pointer-move or pointer-up of the instance, not the clean-up of the active node, and no
  sequence of operations on the registry (attaching, updating, destroying, pointer-down,
  pointer-move, pointer-up), in this interaction or a later one. While the flag is set,
  every hook that a chain still invokes belongs to a plugin whose \<open>cancelable\<close> flag is
  \<open>false\<close>; if the instance has no such plugin, every chain invokes nothing and reports
  success.
\<close>

theorem cancelled_flag_is_permanent:
  "current_drag_hook_cancelled (inst_ctx_call Cancel i0) \<and>
   (current_drag_hook_cancelled i \<longrightarrow>
      current_drag_hook_cancelled (snd (inst_run_plugins cfg h e i)) \<and>
      current_drag_hook_cancelled (inst_pointer_move cfg e i) \<and>
      current_drag_hook_cancelled (inst_pointer_up cfg e i) \<and>
      (\<exists>cs. invoked (snd (inst_run_plugins cfg h e i)) = invoked i @ cs \<and>
            (\<forall>c \<in> set cs. \<exists>p \<in> set (plugins i).
                c = (ident p, During h) \<and> cancelable p = Some False)) \<and>
      ((\<forall>p \<in> set (plugins i). cancelable p \<noteq> Some False) \<longrightarrow>
         fst (inst_run_plugins cfg h e i) \<and>
         invoked (snd (inst_run_plugins cfg h e i)) = invoked i)) \<and>
   (heap m r = Some i \<and> current_drag_hook_cancelled i \<longrightarrow>
      (\<exists>i'. heap (cleanup_active_node m) r = Some i' \<and> current_drag_hook_cancelled i')) \<and>
   (fresh m \<and> heap m r = Some i \<and> current_drag_hook_cancelled i \<longrightarrow>
      (\<exists>i'. heap (perform_all cfg ops m) r = Some i' \<and> current_drag_hook_cancelled i'))"
proof (intro conjI impI)
  show "current_drag_hook_cancelled (inst_ctx_call Cancel i0)"
    by simp
next
  assume a: "current_drag_hook_cancelled i"
  show "current_drag_hook_cancelled (snd (inst_run_plugins cfg h e i))"
    using a by (rule inst_run_plugins_flag)
  show "current_drag_hook_cancelled (inst_pointer_move cfg e i)"
    using a by (rule inst_pointer_move_flag)
  show "current_drag_hook_cancelled (inst_pointer_up cfg e i)"
    using a by (rule inst_pointer_up_flag)
  show "\<exists>cs. invoked (snd (inst_run_plugins cfg h e i)) = invoked i @ cs \<and>
             (\<forall>c \<in> set cs. \<exists>p \<in> set (plugins i).
                 c = (ident p, During h) \<and> cancelable p = Some False)"
    using inst_run_plugins_loop_skips[of "i\<lparr>dragstart_prevented := False\<rparr>" cfg "plugins i" h e] a
    by (simp add: inst_run_plugins_def)
  {
    assume b: "\<forall>p \<in> set (plugins i). cancelable p \<noteq> Some False"
    have "inst_run_plugins cfg h e i = (True, i\<lparr>dragstart_prevented := False\<rparr>)"
      using inst_run_plugins_loop_all_skipped[of "i\<lparr>dragstart_prevented := False\<rparr>" "plugins i" cfg h e]
        a b by (simp add: inst_run_plugins_def)
    then show "fst (inst_run_plugins cfg h e i)"
      and "invoked (snd (inst_run_plugins cfg h e i)) = invoked i"
      by simp_all
  }
next
  assume "heap m r = Some i \<and> current_drag_hook_cancelled i"
  then show "\<exists>i'. heap (cleanup_active_node m) r = Some i' \<and> current_drag_hook_cancelled i'"
    using cleanup_active_node_kept[of m] by (auto simp: flag_kept_def)
next
  assume "fresh m \<and> heap m r = Some i \<and> current_drag_hook_cancelled i"
  then show "\<exists>i'. heap (perform_all cfg ops m) r = Some i' \<and> current_drag_hook_cancelled i'"
    using perform_all_kept[of m cfg ops] by (auto simp: flag_kept_def)
qed

lemmas cancel_eval = cancelling_drag_def probe_def

theorem cancelled_flag_is_permanent_witness:
  "fresh cancelled_manager \<and>
   heap cancelled_manager 0 = Some cancelled_instance \<and>
   current_drag_hook_cancelled cancelled_instance \<and>
   \<not> ctx_isDragging cancelled_instance \<and>
   plugins cancelled_instance = [cancelling_drag] \<and>
   cancelable cancelling_drag \<noteq> Some False \<and>
   fst (inst_run_plugins plain_factory DragEnd (ev 12 25) cancelled_instance) \<and>
   invoked (snd (inst_run_plugins plain_factory DragEnd (ev 12 25) cancelled_instance)) =
     invoked cancelled_instance \<and>
   current_drag_hook_cancelled (inst_pointer_up plain_factory (ev 12 25) cancelled_instance) \<and>
   (\<exists>i'. heap (perform_all plain_factory
                 [PointerUp (ev 12 25), PointerDown (ev 0 0), PointerMove (ev 40 40),
                  PointerUp (ev 40 40), Update 0 []]
                 cancelled_manager) 0 = Some i' \<and>
         current_drag_hook_cancelled i')"
proof -
  have f: "fresh cancelled_manager"
    using perform_all_kept[OF createDraggable_fresh, of plain_factory
        "[Attach 7 [cancelling_drag], PointerDown (ev 0 0), PointerMove (ev 12 25)]"]
    by (simp add: cancelled_manager_def)
  have h: "heap cancelled_manager 0 = Some cancelled_instance"
    by (simp add: cancelled_instance_def cancelled_manager_def manager_eval instance_eval cancel_eval)
  have c: "current_drag_hook_cancelled cancelled_instance" "\<not> ctx_isDragging cancelled_instance"
      "plugins cancelled_instance = [cancelling_drag]"
    by (simp_all add: cancelled_instance_def cancelled_manager_def manager_eval instance_eval
        cancel_eval)
  have p: "cancelable cancelling_drag \<noteq> Some False"
    by (simp add: cancel_eval)
  note t = cancelled_flag_is_permanent[where i = cancelled_instance and cfg = plain_factory
      and h = DragEnd and e = "ev 12 25" and m = cancelled_manager and r = 0
      and ops = "[PointerUp (ev 12 25), PointerDown (ev 0 0), PointerMove (ev 40 40),
                  PointerUp (ev 40 40), Update 0 []]"]
  show ?thesis
    using t f h c p by simp
qed

subsection \<open>Plugin order and plugins of one name\<close>

lemma sort_ascending_sorted: "sorted (map prio (sort_ascending ps))"
  by (simp add: sort_ascending_def)

lemma sort_descending_sorted: "sorted (map (\<lambda>p. - prio p) (sort_descending ps))"
  by (simp add: sort_descending_def)

lemma sort_descending_stable:
  "filter (\<lambda>p. prio p = k) (sort_descending ps) = filter (\<lambda>p. prio p = k) ps"
proof -
  have "filter (\<lambda>p. - prio p = - k) (sort_key (\<lambda>p. - prio p) ps) = filter (\<lambda>p. - prio p = - k) ps"
    by (rule sort_key_stable)
  then show ?thesis by (simp add: sort_descending_def)
qed

text \<open>
  C3 (the single-instance engine orders its plugins by ascending priority). The ordered
  list of any single-instance engine is sorted by ascending priority. With a plugin of
  priority 1 registered before one of priority 2, the \<open>shouldDrag\<close> hook of the
  priority-1 plugin is invoked first on pointer-down; the delegated engine, given the same
  two plugins, orders the priority-2 plugin first.
\<close>

theorem single_instance_runs_low_priority_first:
  "sorted (map prio (ordered_plugins (initial_engine opts))) \<and>
   (\<exists>s. draggable low_high_options = Inr s \<and>
        map ident (ordered_plugins s) = [1, 2] \<and>
        map prio (ordered_plugins s) = [1, 2] \<and>
        hook_calls (snd (pointerdown (ev 0 0) s)) =
          hook_calls s @ [(1, During ShouldDrag), (2, During ShouldDrag)]) \<and>
   map ident (initialize_plugins plain_factory (user_plugins low_high_options)) = [2, 1]"
proof -
  have a: "sorted (map prio (ordered_plugins (initial_engine opts)))"
    by (simp add: initial_engine_def sort_ascending_sorted)
  have b: "draggable low_high_options = Inr (initial_engine low_high_options
             \<lparr>hook_calls := [(1, Setup), (2, Setup)]\<rparr>)"
    by (simp add: low_high_options_def engine_eval probe_def)
  have c: "map ident (ordered_plugins (initial_engine low_high_options)) = [1, 2]"
      "map prio (ordered_plugins (initial_engine low_high_options)) = [1, 2]"
    by (simp_all add: low_high_options_def engine_eval probe_def)
  have d: "hook_calls (snd (pointerdown (ev 0 0)
              (initial_engine low_high_options\<lparr>hook_calls := [(1, Setup), (2, Setup)]\<rparr>))) =
           [(1, Setup), (2, Setup), (1, During ShouldDrag), (2, During ShouldDrag)]"
    by (simp add: low_high_options_def engine_eval probe_def)
  have e: "map ident (initialize_plugins plain_factory (user_plugins low_high_options)) = [2, 1]"
    by (simp add: low_high_options_def manager_eval probe_def prio_def)
  show ?thesis
    using a b c d e by simp
qed

text \<open>
  C4 (the single-instance engine runs \<open>setup\<close> on overridden plugins). With two plugins
  named \<open>p\<close>, of priorities 1 and 2, only the priority-2 plugin is in the ordered list,
  but both have received \<open>setup\<close>, the priority-1 one first. With two plugins named \<open>p\<close>
  of equal priority the single-instance engine keeps the first, the delegated engine the
  second. In the delegated engine an attach of the two plugins of priorities 1 and 2 runs
  the \<open>setup\<close> of the priority-2 plugin only.
\<close>

theorem single_instance_sets_up_overridden_plugin:
  "(\<exists>s. draggable same_name_options = Inr s \<and>
        map ident (ordered_plugins s) = [2] \<and>
        hook_calls s = [(1, Setup), (2, Setup)]) \<and>
   map ident (ordered_plugins (initial_engine same_priority_options)) = [1] \<and>
   map ident (initialize_plugins plain_factory (user_plugins same_priority_options)) = [2] \<and>
   (\<exists>i. instances_get
          (snd (attach plain_factory 7 (user_plugins same_name_options) createDraggable)) 7 =
            Some (0, i) \<and>
        map ident (plugins i) = [2] \<and> invoked i = [(2, Setup)])"
proof -
  have a: "draggable same_name_options = Inr (initial_engine same_name_options
             \<lparr>hook_calls := [(1, Setup), (2, Setup)]\<rparr>)"
    by (simp add: same_name_options_def engine_eval probe_def)
  have b: "map ident (ordered_plugins (initial_engine same_name_options)) = [2]"
      "map ident (ordered_plugins (initial_engine same_priority_options)) = [1]"
    by (simp_all add: same_name_options_def same_priority_options_def engine_eval probe_def)
  have c: "map ident (initialize_plugins plain_factory (user_plugins same_priority_options)) = [2]"
    by (simp add: same_priority_options_def manager_eval probe_def prio_def)
  have d: "\<exists>i. instances_get
             (snd (attach plain_factory 7 (user_plugins same_name_options) createDraggable)) 7 =
               Some (0, i) \<and>
           map ident (plugins i) = [2] \<and> invoked i = [(2, Setup)]"
    by (simp add: same_name_options_def manager_eval instance_eval probe_def)
  show ?thesis
    using a b c d by simp
qed

subsection \<open>The effect queue\<close>















subsection \<open>The order of the hooks\<close>

lemma ctx_calls_hook_calls: "hook_calls (ctx_calls as s) = hook_calls s"
  unfolding ctx_calls_def
proof (induction as arbitrary: s)
  case Nil
  show ?case by simp
next
  case (Cons a as)
  have "hook_calls (ctx_call a s) = hook_calls s" by (cases a) simp_all
  then show ?case using Cons[of "ctx_call a s"] by simp
qed

lemma call_handler_hook_calls:
  "hook_calls (snd (call_handler p h f e s)) = hook_calls s @ [(ident p, During h)]"
  by (simp add: call_handler_def Let_def ctx_calls_hook_calls)

lemma hooked_Cons:
  "hooked h (p # ps) = (if handler_of h p \<noteq> None then (ident p, During h) # hooked h ps else hooked h ps)"
  by (simp add: hooked_def)

lemma run_plugins_loop_hook_calls:
  "\<exists>k. hook_calls (snd (run_plugins_loop ps h e s)) = hook_calls s @ take k (hooked h ps) \<and>
       (fst (run_plugins_loop ps h e s) = Ran True \<longrightarrow> k = length (hooked h ps))"
proof (induction ps arbitrary: s)
  case Nil
  show ?case by (simp add: hooked_def)
next
  case (Cons p ps)
  show ?case
  proof (cases "handler_of h p")
    case None
    then show ?thesis using Cons[of s] by (simp add: hooked_Cons)
  next
    case (Some f)
    obtain r s1 where c: "call_handler p h f e s = (r, s1)"
      by (cases "call_handler p h f e s")
    have l: "hook_calls s1 = hook_calls s @ [(ident p, During h)]"
      using call_handler_hook_calls[of p h f e s] c by simp
    have stop: "\<exists>k. hook_calls s1 = hook_calls s @ take k (hooked h (p # ps)) \<and> k \<noteq> length (hooked h (p # ps)) + 1"
      using l Some by (intro exI[of _ 1]) (simp add: hooked_Cons)
    from Cons[of s1] obtain k where
      k: "hook_calls (snd (run_plugins_loop ps h e s1)) = hook_calls s1 @ take k (hooked h ps)"
        "fst (run_plugins_loop ps h e s1) = Ran True \<longrightarrow> k = length (hooked h ps)"
      by blast
    have go: "hook_calls (snd (run_plugins_loop ps h e s1)) =
                hook_calls s @ take (Suc k) (hooked h (p # ps))"
      using k(1) l Some by (simp add: hooked_Cons)
    show ?thesis
    proof (cases r)
      case RetFalse
      then show ?thesis
        using Some c l by (intro exI[of _ 1]) (simp add: hooked_Cons)
    next
      case (Threw err)
      then show ?thesis
        using Some c l by (intro exI[of _ 1]) (simp add: hooked_Cons)
    next
      case RetOther
      show ?thesis
      proof (cases "hook_cancelled s1")
        case True
        then show ?thesis
          using Some c l RetOther by (intro exI[of _ 1]) (simp add: hooked_Cons)
      next
        case False
        then show ?thesis
          using Some c RetOther go k(2) by (intro exI[of _ "Suc k"]) (simp add: hooked_Cons)
      qed
    qed
  qed
qed

lemma run_plugins_hook_calls:
  "\<exists>k. hook_calls (snd (run_plugins h e s)) = hook_calls s @ take k (hooked h (ordered_plugins s)) \<and>
       (fst (run_plugins h e s) = Ran True \<longrightarrow> k = length (hooked h (ordered_plugins s)))"
  using run_plugins_loop_hook_calls[of "ordered_plugins s" h e s] by (simp add: run_plugins_def)

text \<open>What one call of \<open>try_start_drag\<close> does to the history and to \<open>is_dragging\<close>.\<close>

lemma try_start_drag_calls:
  assumes "\<not> is_dragging s"
  shows "\<exists>k. hook_calls (snd (try_start_drag e s)) =
              hook_calls s @ take k (hooked DragStart (ordered_plugins s)) \<and>
            (is_dragging (snd (try_start_drag e s)) \<longrightarrow>
               k = length (hooked DragStart (ordered_plugins s)) \<and>
               fst (try_start_drag e s) = None) \<and>
            (\<not> (is_interacting s \<and> meets_distance_threshold s \<and> meets_time_threshold s) \<longrightarrow>
               try_start_drag e s = (None, s))"
    and "ordered_plugins (snd (try_start_drag e s)) = ordered_plugins s"
    and "is_interacting (snd (try_start_drag e s)) = is_interacting s"
    and "meets_distance_threshold (snd (try_start_drag e s)) = meets_distance_threshold s"
    and "initial_x (snd (try_start_drag e s)) = initial_x s"
    and "initial_y (snd (try_start_drag e s)) = initial_y s"
    and "threshold_distance (snd (try_start_drag e s)) = threshold_distance s"
proof -
  let ?g = "is_interacting s \<and> meets_distance_threshold s \<and> meets_time_threshold s"
  let ?s0 = "s\<lparr>delta_x := 0, delta_y := 0\<rparr>"
  obtain r s1 where c: "run_plugins DragStart e ?s0 = (r, s1)"
    by (cases "run_plugins DragStart e ?s0")
  have fr: "frame_eq s1 ?s0"
    using run_plugins_frame_eq[of DragStart e ?s0] c by simp
  from run_plugins_hook_calls[of DragStart e ?s0] obtain k where
    k: "hook_calls s1 = hook_calls s @ take k (hooked DragStart (ordered_plugins s))"
      "r = Ran True \<longrightarrow> k = length (hooked DragStart (ordered_plugins s))"
    using c by auto
  have t: "try_start_drag e s =
             (if ?g then
                (case r of
                   Uncaught err \<Rightarrow> (Some err, s1)
                 | Ran b \<Rightarrow>
                     if b then
                       (let s2 = (flush_effects s1)\<lparr>is_dragging := True\<rparr>
                        in (None, call_event (Neodrag_start (initial_x s2) (initial_y s2)) s2))
                     else (None, clear_effects s1))
              else (None, s))"
    using assms c by (auto simp: try_start_drag_def split: run_result.splits bool.splits)
  have nd: "\<not> is_dragging s1"
    using fr assms by (simp add: frame_eq_def)
  show "\<exists>k. hook_calls (snd (try_start_drag e s)) =
              hook_calls s @ take k (hooked DragStart (ordered_plugins s)) \<and>
            (is_dragging (snd (try_start_drag e s)) \<longrightarrow>
               k = length (hooked DragStart (ordered_plugins s)) \<and>
               fst (try_start_drag e s) = None) \<and>
            (\<not> ?g \<longrightarrow> try_start_drag e s = (None, s))"
  proof (cases ?g)
    case False
    then have "try_start_drag e s = (None, s)"
      by (auto simp: try_start_drag_def)
    then show ?thesis
      using assms by (intro exI[of _ 0]) simp
  next
    case True
    show ?thesis
      using True t k nd
      by (intro exI[of _ k])
        (auto simp: Let_def flush_effects_def clear_effects_def call_event_def
          split: run_result.splits bool.splits)
  qed
  show "ordered_plugins (snd (try_start_drag e s)) = ordered_plugins s"
    and "is_interacting (snd (try_start_drag e s)) = is_interacting s"
    and "meets_distance_threshold (snd (try_start_drag e s)) = meets_distance_threshold s"
    and "initial_x (snd (try_start_drag e s)) = initial_x s"
    and "initial_y (snd (try_start_drag e s)) = initial_y s"
    and "threshold_distance (snd (try_start_drag e s)) = threshold_distance s"
    using t fr
    by (auto simp: Let_def flush_effects_def clear_effects_def call_event_def frame_eq_def
        split: run_result.splits bool.splits)
qed

lemma check_thresholds_calls:
  assumes "\<not> is_dragging s"
  shows "\<exists>k. hook_calls (snd (check_thresholds e s)) =
              hook_calls s @ take k (hooked DragStart (ordered_plugins s)) \<and>
            (is_dragging (snd (check_thresholds e s)) \<longrightarrow>
               k = length (hooked DragStart (ordered_plugins s)) \<and>
               fst (check_thresholds e s) = None)"
    and "ordered_plugins (snd (check_thresholds e s)) = ordered_plugins s"
proof -
  let ?t = "\<not> meets_time_threshold s \<and> threshold_delay s \<le> date_now e - start_time s"
  let ?sa = "s\<lparr>meets_time_threshold := True\<rparr>"
  let ?first = "if ?t then try_start_drag e ?sa else (None, s)"
  obtain r1 s1 where f: "?first = (r1, s1)" by (cases ?first)
  let ?d = "\<not> meets_distance_threshold s1 \<and>
            (threshold_distance s1)\<^sup>2 \<le> (clientX e - initial_x s1)\<^sup>2 + (clientY e - initial_y s1)\<^sup>2"
  let ?sb = "s1\<lparr>meets_distance_threshold := True\<rparr>"
  have ct: "check_thresholds e s =
              (case r1 of Some err \<Rightarrow> (Some err, s1)
               | None \<Rightarrow> if ?d then try_start_drag e ?sb else (None, s1))"
    using f by (simp add: check_thresholds_def Let_def)
  have nda: "\<not> is_dragging ?sa" using assms by simp
  note A = try_start_drag_calls[OF nda, of e]
  have s1_facts: "ordered_plugins s1 = ordered_plugins s"
      "meets_distance_threshold s1 = meets_distance_threshold s"
    using f A(2,4) by (auto split: if_splits)
  from A(1) obtain ka where
    ka: "hook_calls (snd (try_start_drag e ?sa)) =
           hook_calls s @ take ka (hooked DragStart (ordered_plugins s))"
      "is_dragging (snd (try_start_drag e ?sa)) \<longrightarrow>
         ka = length (hooked DragStart (ordered_plugins s)) \<and> fst (try_start_drag e ?sa) = None"
      "\<not> (is_interacting ?sa \<and> meets_distance_threshold ?sa \<and> meets_time_threshold ?sa) \<longrightarrow>
         try_start_drag e ?sa = (None, ?sa)"
    by auto
  show "ordered_plugins (snd (check_thresholds e s)) = ordered_plugins s"
  proof (cases r1)
    case (Some err)
    then show ?thesis using ct s1_facts by simp
  next
    case None
    have "\<not> is_dragging ?sb \<Longrightarrow> ordered_plugins (snd (try_start_drag e ?sb)) = ordered_plugins s"
      using try_start_drag_calls(2)[of ?sb e] s1_facts by simp
    moreover have "?d \<Longrightarrow> \<not> is_dragging ?sb"
    proof -
      assume d: ?d
      then have "\<not> meets_distance_threshold s" using s1_facts by simp
      then have "?first = (None, s) \<or> ?first = (None, ?sa)"
        using ka(3) by auto
      then show ?thesis using f assms by auto
    qed
    ultimately show ?thesis using ct None s1_facts by auto
  qed
  show "\<exists>k. hook_calls (snd (check_thresholds e s)) =
              hook_calls s @ take k (hooked DragStart (ordered_plugins s)) \<and>
            (is_dragging (snd (check_thresholds e s)) \<longrightarrow>
               k = length (hooked DragStart (ordered_plugins s)) \<and>
               fst (check_thresholds e s) = None)"
  proof (cases "meets_distance_threshold s")
    case True
    \<comment> \<open>only the first call can run the chain\<close>
    have nd: "\<not> ?d" using s1_facts True by simp
    have ct': "check_thresholds e s = ?first"
      using ct nd f by (cases r1) simp_all
    show ?thesis
    proof (cases ?t)
      case True
      then show ?thesis using ct' ka by (intro exI[of _ ka]) simp
    next
      case False
      then have "check_thresholds e s = (None, s)"
        using ct' by auto
      then show ?thesis using assms by (intro exI[of _ 0]) simp
    qed
  next
    case False
    \<comment> \<open>the first call, if made, changes nothing but the time flag\<close>
    have first: "?first = (None, if ?t then ?sa else s)"
      using ka(3) False by auto
    then have r1: "r1 = None" and s1: "s1 = (if ?t then ?sa else s)"
      using f by auto
    have ndb: "\<not> is_dragging ?sb" using s1 assms by auto
    note B = try_start_drag_calls[OF ndb, of e]
    have hb: "hook_calls ?sb = hook_calls s" "ordered_plugins ?sb = ordered_plugins s"
      using s1 by auto
    from B(1) obtain kb where
      kb: "hook_calls (snd (try_start_drag e ?sb)) =
             hook_calls s @ take kb (hooked DragStart (ordered_plugins s))"
        "is_dragging (snd (try_start_drag e ?sb)) \<longrightarrow>
           kb = length (hooked DragStart (ordered_plugins s)) \<and> fst (try_start_drag e ?sb) = None"
      unfolding hb by auto
    show ?thesis
    proof (cases ?d)
      case True
      then have "check_thresholds e s = try_start_drag e ?sb"
        unfolding ct r1 by auto
      then show ?thesis using kb by (intro exI[of _ kb]) simp
    next
      case False
      then have "check_thresholds e s = (None, s1)"
        unfolding ct r1 by auto
      then show ?thesis using s1 assms by (intro exI[of _ 0]) auto
    qed
  qed
qed

lemma drag_step_calls:
  "\<exists>j. hook_calls (snd (drag_step e s)) = hook_calls s @ take j (hooked Drag (ordered_plugins s))"
proof -
  obtain r s1 where c: "run_plugins Drag e (propose_delta e s) = (r, s1)"
    by (cases "run_plugins Drag e (propose_delta e s)")
  from run_plugins_hook_calls[of Drag e "propose_delta e s"] obtain j where
    "hook_calls s1 = hook_calls s @ take j (hooked Drag (ordered_plugins s))"
    using c by (auto simp: propose_delta_def Let_def)
  then show ?thesis
    using c
    by (intro exI[of _ j])
      (auto simp: drag_step_def Let_def flush_effects_def clear_effects_def call_event_def
        split: run_result.splits bool.splits)
qed

lemma pointerdown_calls:
  shows "\<exists>k. hook_calls (snd (pointerdown e s)) =
              hook_calls s @ take k (hooked ShouldDrag (ordered_plugins s))"
    and "is_dragging (snd (pointerdown e s)) = is_dragging s"
proof -
  obtain r s1 where c: "run_plugins ShouldDrag e s = (r, s1)"
    by (cases "run_plugins ShouldDrag e s")
  have fr: "frame_eq s1 s"
    using run_plugins_frame_eq[of ShouldDrag e s] c by simp
  from run_plugins_hook_calls[of ShouldDrag e s] obtain k where
    k: "hook_calls s1 = hook_calls s @ take k (hooked ShouldDrag (ordered_plugins s))"
    using c by auto
  show "\<exists>k. hook_calls (snd (pointerdown e s)) = hook_calls s @ take k (hooked ShouldDrag (ordered_plugins s))"
  proof (cases "button e = 2")
    case True
    then show ?thesis by (intro exI[of _ 0]) (simp add: pointerdown_def)
  next
    case False
    then show ?thesis
      using c k
      by (intro exI[of _ k])
        (auto simp: pointerdown_def Let_def split: run_result.splits bool.splits)
  qed
  show "is_dragging (snd (pointerdown e s)) = is_dragging s"
    using c fr
    by (auto simp: pointerdown_def Let_def frame_eq_def split: run_result.splits bool.splits)
qed

lemma pointerup_calls:
  "\<exists>k. hook_calls (snd (pointerup e s)) = hook_calls s @ take k (hooked DragEnd (ordered_plugins s))"
proof (cases "is_interacting s")
  case False
  then show ?thesis by (intro exI[of _ 0]) (simp add: pointerup_def)
next
  case True
  from run_plugins_hook_calls[of DragEnd e s] obtain k where
    "hook_calls (snd (run_plugins DragEnd e s)) =
       hook_calls s @ take k (hooked DragEnd (ordered_plugins s))"
    by auto
  then show ?thesis
    using pointerup_outcome(2)[OF True, of e] by (intro exI[of _ k]) simp
qed

lemma pointermove_calls:
  assumes "is_interacting s" and "\<not> is_dragging s"
  shows "\<exists>k j. hook_calls (snd (pointermove e s)) =
                hook_calls s @ take k (hooked DragStart (ordered_plugins s))
                  @ take j (hooked Drag (ordered_plugins s)) \<and>
              (0 < j \<or> is_dragging (snd (pointermove e s)) \<longrightarrow>
                 k = length (hooked DragStart (ordered_plugins s)))"
proof -
  obtain r1 s1 where c: "check_thresholds e s = (r1, s1)"
    by (cases "check_thresholds e s")
  from check_thresholds_calls[OF assms(2), of e] obtain k where
    k: "hook_calls s1 = hook_calls s @ take k (hooked DragStart (ordered_plugins s))"
      "is_dragging s1 \<longrightarrow> k = length (hooked DragStart (ordered_plugins s)) \<and> r1 = None"
    and op: "ordered_plugins s1 = ordered_plugins s"
    using c by auto
  have pm: "pointermove e s =
              (case r1 of Some err \<Rightarrow> (Some err, s1)
               | None \<Rightarrow> if \<not> is_dragging s1 then (None, s1) else drag_step e s1)"
    using assms c by (simp add: pointermove_def)
  show ?thesis
  proof (cases "is_dragging s1")
    case False
    then have "snd (pointermove e s) = s1"
      using pm by (cases r1) simp_all
    then show ?thesis
      using k(1) False by (intro exI[of _ k] exI[of _ 0]) simp
  next
    case True
    then have kk: "k = length (hooked DragStart (ordered_plugins s))" and "r1 = None"
      using k(2) by simp_all
    then have "pointermove e s = drag_step e s1"
      using pm True by simp
    moreover from drag_step_calls[of e s1] obtain j where
      "hook_calls (snd (drag_step e s1)) = hook_calls s1 @ take j (hooked Drag (ordered_plugins s))"
      using op by auto
    ultimately show ?thesis
      using k(1) kk by (intro exI[of _ k] exI[of _ j]) simp
  qed
qed

lemma pointermove_dragging_calls:
  assumes "is_interacting s" and "is_dragging s"
  shows "\<exists>j. hook_calls (snd (pointermove e s)) = hook_calls s @ take j (hooked Drag (ordered_plugins s))"
  using assms drag_step_calls[of e s] by (simp add: pointermove_def)

text \<open>The delegated engine.\<close>

lemma inst_run_plugins_loop_invoked:
  "\<exists>cs. invoked (snd (inst_run_plugins_loop cfg ps h e i)) = invoked i @ cs \<and>
        (\<forall>c \<in> set cs. snd c = During h) \<and>
        (\<not> current_drag_hook_cancelled i \<and> hooked h ps \<noteq> [] \<longrightarrow>
           cs \<noteq> [] \<and> hd cs = hd (hooked h ps))"
proof (induction ps arbitrary: i)
  case Nil
  show ?case by (simp add: hooked_def)
next
  case (Cons p ps)
  show ?case
  proof (cases "handler_of h p")
    case None
    then show ?thesis using Cons[of i] by (simp add: hooked_Cons)
  next
    case (Some f)
    show ?thesis
    proof (cases "current_drag_hook_cancelled i \<and> cancelable p \<noteq> Some False")
      case True
      then show ?thesis using Some Cons[of i] by auto
    next
      case False
      obtain r i1 where c: "inst_call_handler p h f e i = (r, i1)"
        by (cases "inst_call_handler p h f e i")
      have l: "invoked i1 = invoked i @ [(ident p, During h)]"
        using inst_call_handler_log(1)[of p h f e i] c by simp
      from Cons[of i1] obtain cs where
        cs: "invoked (snd (inst_run_plugins_loop cfg ps h e i1)) = invoked i1 @ cs"
          "\<forall>c \<in> set cs. snd c = During h"
        by blast
      have run: "inst_run_plugins_loop cfg (p # ps) h e i =
                   (case r of
                      Threw err \<Rightarrow>
                        (False,
                         report_error cfg
                           \<lparr> err_phase = During h, err_plugin = Some (name p, During h),
                             err_node = ctx_rootNode i, err_error = err \<rparr> i1)
                    | RetFalse \<Rightarrow> (False, i1)
                    | RetOther \<Rightarrow> inst_run_plugins_loop cfg ps h e i1)"
        using Some False c by auto
      have hk: "hooked h (p # ps) = (ident p, During h) # hooked h ps"
        using Some by (simp add: hooked_Cons)
      show ?thesis
      proof (cases r)
        case RetOther
        then show ?thesis
          unfolding run hk using l cs
          by (intro exI[of _ "(ident p, During h) # cs"]) simp
      next
        case RetFalse
        then show ?thesis
          unfolding run hk using l
          by (intro exI[of _ "[(ident p, During h)]"]) simp
      next
        case (Threw err)
        then show ?thesis
          unfolding run hk using l
          by (intro exI[of _ "[(ident p, During h)]"]) (simp add: report_error_def)
      qed
    qed
  qed
qed

lemma inst_run_plugins_invoked:
  "\<exists>cs. invoked (snd (inst_run_plugins cfg h e i)) = invoked i @ cs \<and>
        (\<forall>c \<in> set cs. snd c = During h) \<and>
        (\<not> current_drag_hook_cancelled i \<and> hooked h (plugins i) \<noteq> [] \<longrightarrow>
           cs \<noteq> [] \<and> hd cs = hd (hooked h (plugins i)))"
  using inst_run_plugins_loop_invoked[of cfg "plugins i" h e "i\<lparr>dragstart_prevented := False\<rparr>"]
  by (simp add: inst_run_plugins_def)

lemma inst_start_drag_invoked:
  "invoked (snd (inst_start_drag cfg e i)) = invoked (snd (inst_run_plugins cfg DragStart e i))"
  "fst (inst_start_drag cfg e i) = fst (inst_run_plugins cfg DragStart e i)"
  by (simp_all add: inst_start_drag_def inst_flush_effects_def inst_clear_effects_def
      split: prod.splits bool.splits)

lemma inst_drag_step_invoked:
  "invoked (inst_drag_step cfg e i) =
     invoked (snd (inst_run_plugins cfg Drag e (inst_propose_delta e i)))"
  by (simp add: inst_drag_step_def Let_def inst_flush_effects_def inst_clear_effects_def
      split: prod.splits bool.splits)

lemma inst_pointer_move_invoked:
  fixes cfg e i
  defines "pre \<equiv> inst_run_plugins cfg Drag e (i\<lparr>ctx_lastEvent := Some e, dragstart_prevented := False\<rparr>)"
  assumes "ctx_isInteracting i" and "\<not> ctx_isDragging i"
  shows "\<exists>cs ds. invoked (inst_pointer_move cfg e i) = invoked (snd pre) @ cs @ ds \<and>
               (\<forall>c \<in> set cs. snd c = During DragStart) \<and>
               (\<forall>d \<in> set ds. snd d = During Drag) \<and>
               (cs \<noteq> [] \<or> ds \<noteq> [] \<longrightarrow>
                  \<not> dragstart_prevented (snd pre) \<and> \<not> current_drag_hook_cancelled (snd pre))"
proof -
  let ?i1 = "snd pre"
  have pm: "inst_pointer_move cfg e i =
              (if \<not> dragstart_prevented ?i1 \<and> \<not> current_drag_hook_cancelled ?i1
               then (case inst_start_drag cfg e ?i1 of
                       (False, i2) \<Rightarrow> i2
                     | (True, i2) \<Rightarrow> inst_drag_step cfg e i2)
               else ?i1)"
    using assms(2,3) by (simp add: inst_pointer_move_def Let_def pre_def)
  show ?thesis
  proof (cases "\<not> dragstart_prevented ?i1 \<and> \<not> current_drag_hook_cancelled ?i1")
    case False
    then have "inst_pointer_move cfg e i = ?i1" using pm by auto
    then show ?thesis by (intro exI[of _ "[]"]) simp
  next
    case True
    obtain b i2 where s: "inst_start_drag cfg e ?i1 = (b, i2)"
      by (cases "inst_start_drag cfg e ?i1")
    from inst_run_plugins_invoked[of cfg DragStart e ?i1] obtain cs where
      cs: "invoked i2 = invoked ?i1 @ cs" "\<forall>c \<in> set cs. snd c = During DragStart"
      using inst_start_drag_invoked(1)[of cfg e ?i1] s by auto
    show ?thesis
    proof (cases b)
      case False
      then have "inst_pointer_move cfg e i = i2" using pm True s by simp
      then show ?thesis
        using cs True by (intro exI[of _ cs] exI[of _ "[]"]) simp
    next
      case b: True
      then have m: "inst_pointer_move cfg e i = inst_drag_step cfg e i2" using pm True s by simp
      from inst_run_plugins_invoked[of cfg Drag e "inst_propose_delta e i2"] obtain ds where
        "invoked (inst_drag_step cfg e i2) = invoked i2 @ ds" "\<forall>d \<in> set ds. snd d = During Drag"
        using inst_drag_step_invoked[of cfg e i2] by (auto simp: inst_propose_delta_def Let_def)
      then show ?thesis
        using cs True m by (intro exI[of _ cs] exI[of _ ds]) simp
    qed
  qed
qed

text \<open>
  C5, as the claim states it, fails in the delegated engine: while an interaction is not
  yet dragging, every pointer-move runs the \<open>drag\<close> chain before the \<open>dragStart\<close> chain.
  After an attach of one probe and a pointer-down, the first pointer-move invokes the
  probe's \<open>drag\<close> hook, then its \<open>dragStart\<close> hook, then its \<open>drag\<close> hook again.
\<close>

theorem drag_hook_runs_before_dragStart:
  "active_node pressed_manager = Some 7 \<and>
   instances_get pressed_manager 7 = Some (0, pressed_instance) \<and>
   ctx_isInteracting pressed_instance \<and> \<not> ctx_isDragging pressed_instance \<and>
   invoked pressed_instance = [(1, Setup), (1, During ShouldDrag)] \<and>
   handle_pointer_move plain_factory (ev 12 25) pressed_manager =
     (None, store 0 (inst_pointer_move plain_factory (ev 12 25) pressed_instance) pressed_manager) \<and>
   invoked (inst_pointer_move plain_factory (ev 12 25) pressed_instance) =
     [(1, Setup), (1, During ShouldDrag), (1, During Drag), (1, During DragStart), (1, During Drag)]"
  by (simp add: pressed_instance_def pressed_manager_def manager_eval instance_eval probe_def)

text \<open>
  C5, amended. In the single-instance engine a pointer-down invokes \<open>shouldDrag\<close> hooks
  only and does not start dragging; a pointer-move of an interaction that is not yet
  dragging invokes \<open>dragStart\<close> hooks first and \<open>drag\<close> hooks after them, in plugin
  order, and it invokes a \<open>drag\<close> hook, or leaves the interaction dragging, only when
  the \<open>dragStart\<close> hook of every plugin that has one has been invoked before; a
  pointer-move of a dragging interaction invokes \<open>drag\<close> hooks only, and a pointer-up
  \<open>dragEnd\<close> hooks only. In the delegated engine a pointer-move of an interaction that
  is not yet dragging runs the \<open>drag\<close> chain first, as a check before the start (with no
  cancellation recorded, its first hook is the \<open>drag\<close> hook of the first plugin that has
  one), and runs the \<open>dragStart\<close> chain and then the \<open>drag\<close> chain proper only after
  it, and only if that check neither prevented the start nor left a cancellation.
\<close>

theorem lifecycle_order_per_event:
  "(\<exists>k. hook_calls (snd (pointerdown e s)) =
          hook_calls s @ take k (hooked ShouldDrag (ordered_plugins s))) \<and>
   is_dragging (snd (pointerdown e s)) = is_dragging s \<and>
   (is_interacting s \<and> \<not> is_dragging s \<longrightarrow>
      (\<exists>k j. hook_calls (snd (pointermove e s)) =
                hook_calls s @ take k (hooked DragStart (ordered_plugins s))
                  @ take j (hooked Drag (ordered_plugins s)) \<and>
              (0 < j \<or> is_dragging (snd (pointermove e s)) \<longrightarrow>
                 k = length (hooked DragStart (ordered_plugins s))))) \<and>
   (is_interacting s \<and> is_dragging s \<longrightarrow>
      (\<exists>j. hook_calls (snd (pointermove e s)) =
              hook_calls s @ take j (hooked Drag (ordered_plugins s)))) \<and>
   (\<not> is_interacting s \<longrightarrow> pointermove e s = (None, s)) \<and>
   (\<exists>k. hook_calls (snd (pointerup e s)) =
          hook_calls s @ take k (hooked DragEnd (ordered_plugins s))) \<and>
   (ctx_isInteracting i \<and> \<not> ctx_isDragging i \<longrightarrow>
      (let pre = inst_run_plugins cfg Drag e
                   (i\<lparr>ctx_lastEvent := Some e, dragstart_prevented := False\<rparr>)
       in (\<exists>ps. invoked (snd pre) = invoked i @ ps \<and>
                (\<forall>c \<in> set ps. snd c = During Drag) \<and>
                (\<not> current_drag_hook_cancelled i \<and> hooked Drag (plugins i) \<noteq> [] \<longrightarrow>
                   ps \<noteq> [] \<and> hd ps = hd (hooked Drag (plugins i)))) \<and>
          (\<exists>cs ds. invoked (inst_pointer_move cfg e i) = invoked (snd pre) @ cs @ ds \<and>
                   (\<forall>c \<in> set cs. snd c = During DragStart) \<and>
                   (\<forall>d \<in> set ds. snd d = During Drag) \<and>
                   (cs \<noteq> [] \<or> ds \<noteq> [] \<longrightarrow>
                      \<not> dragstart_prevented (snd pre) \<and>
                      \<not> current_drag_hook_cancelled (snd pre)))))"
proof (intro conjI impI)
  show "\<exists>k. hook_calls (snd (pointerdown e s)) =
          hook_calls s @ take k (hooked ShouldDrag (ordered_plugins s))"
    by (rule pointerdown_calls(1))
  show "is_dragging (snd (pointerdown e s)) = is_dragging s"
    by (rule pointerdown_calls(2))
  show "\<exists>k. hook_calls (snd (pointerup e s)) =
          hook_calls s @ take k (hooked DragEnd (ordered_plugins s))"
    by (rule pointerup_calls)
next
  assume "is_interacting s \<and> \<not> is_dragging s"
  then show "\<exists>k j. hook_calls (snd (pointermove e s)) =
                hook_calls s @ take k (hooked DragStart (ordered_plugins s))
                  @ take j (hooked Drag (ordered_plugins s)) \<and>
              (0 < j \<or> is_dragging (snd (pointermove e s)) \<longrightarrow>
                 k = length (hooked DragStart (ordered_plugins s)))"
    using pointermove_calls[of s e] by simp
next
  assume "is_interacting s \<and> is_dragging s"
  then show "\<exists>j. hook_calls (snd (pointermove e s)) =
              hook_calls s @ take j (hooked Drag (ordered_plugins s))"
    using pointermove_dragging_calls[of s e] by simp
next
  assume "\<not> is_interacting s"
  then show "pointermove e s = (None, s)"
    by (simp add: pointermove_def)
next
  assume a: "ctx_isInteracting i \<and> \<not> ctx_isDragging i"
  let ?i0 = "i\<lparr>ctx_lastEvent := Some e, dragstart_prevented := False\<rparr>"
  have 1: "\<exists>ps. invoked (snd (inst_run_plugins cfg Drag e ?i0)) = invoked i @ ps \<and>
                (\<forall>c \<in> set ps. snd c = During Drag) \<and>
                (\<not> current_drag_hook_cancelled i \<and> hooked Drag (plugins i) \<noteq> [] \<longrightarrow>
                   ps \<noteq> [] \<and> hd ps = hd (hooked Drag (plugins i)))"
    using inst_run_plugins_invoked[of cfg Drag e ?i0] by simp
  have 2: "\<exists>cs ds. invoked (inst_pointer_move cfg e i) =
                     invoked (snd (inst_run_plugins cfg Drag e ?i0)) @ cs @ ds \<and>
                   (\<forall>c \<in> set cs. snd c = During DragStart) \<and>
                   (\<forall>d \<in> set ds. snd d = During Drag) \<and>
                   (cs \<noteq> [] \<or> ds \<noteq> [] \<longrightarrow>
                      \<not> dragstart_prevented (snd (inst_run_plugins cfg Drag e ?i0)) \<and>
                      \<not> current_drag_hook_cancelled (snd (inst_run_plugins cfg Drag e ?i0)))"
    using inst_pointer_move_invoked[of i cfg e] a by simp
  show "let pre = inst_run_plugins cfg Drag e ?i0
        in (\<exists>ps. invoked (snd pre) = invoked i @ ps \<and>
                 (\<forall>c \<in> set ps. snd c = During Drag) \<and>
                 (\<not> current_drag_hook_cancelled i \<and> hooked Drag (plugins i) \<noteq> [] \<longrightarrow>
                    ps \<noteq> [] \<and> hd ps = hd (hooked Drag (plugins i)))) \<and>
           (\<exists>cs ds. invoked (inst_pointer_move cfg e i) = invoked (snd pre) @ cs @ ds \<and>
                    (\<forall>c \<in> set cs. snd c = During DragStart) \<and>
                    (\<forall>d \<in> set ds. snd d = During Drag) \<and>
                    (cs \<noteq> [] \<or> ds \<noteq> [] \<longrightarrow>
                       \<not> dragstart_prevented (snd pre) \<and>
                       \<not> current_drag_hook_cancelled (snd pre)))"
    unfolding Let_def using 1 2 by blast
qed

theorem lifecycle_order_per_event_witness:
  "is_interacting pressed_engine \<and> \<not> is_dragging pressed_engine \<and>
   hooked DragStart (ordered_plugins pressed_engine) = [(1, During DragStart)] \<and>
   hooked Drag (ordered_plugins pressed_engine) = [(1, During Drag)] \<and>
   is_dragging (snd (pointermove (ev 12 25) pressed_engine)) \<and>
   hook_calls (snd (pointermove (ev 12 25) pressed_engine)) =
     hook_calls pressed_engine @ [(1, During DragStart), (1, During Drag)] \<and>
   (\<exists>k j. hook_calls (snd (pointermove (ev 12 25) pressed_engine)) =
            hook_calls pressed_engine @ take k (hooked DragStart (ordered_plugins pressed_engine))
              @ take j (hooked Drag (ordered_plugins pressed_engine)) \<and>
          k = length (hooked DragStart (ordered_plugins pressed_engine))) \<and>
   ctx_isInteracting pressed_instance \<and> \<not> ctx_isDragging pressed_instance \<and>
   \<not> current_drag_hook_cancelled pressed_instance \<and>
   hooked Drag (plugins pressed_instance) = [(1, During Drag)] \<and>
   (\<exists>ps. invoked (snd (inst_run_plugins plain_factory Drag (ev 12 25)
                        (pressed_instance\<lparr>ctx_lastEvent := Some (ev 12 25),
                                           dragstart_prevented := False\<rparr>))) =
           invoked pressed_instance @ ps \<and>
         ps \<noteq> [] \<and> hd ps = (1, During Drag))"
proof -
  let ?e = "ev 12 25"
  have s: "is_interacting pressed_engine" "\<not> is_dragging pressed_engine"
      "hooked DragStart (ordered_plugins pressed_engine) = [(1, During DragStart)]"
      "hooked Drag (ordered_plugins pressed_engine) = [(1, During Drag)]"
    by (simp_all add: pressed_engine_def engine_eval probe_def hooked_def)
  have m: "is_dragging (snd (pointermove ?e pressed_engine))"
      "hook_calls (snd (pointermove ?e pressed_engine)) =
         hook_calls pressed_engine @ [(1, During DragStart), (1, During Drag)]"
    by (simp_all add: pressed_engine_def engine_eval probe_def)
  have i: "ctx_isInteracting pressed_instance" "\<not> ctx_isDragging pressed_instance"
      "\<not> current_drag_hook_cancelled pressed_instance"
      "hooked Drag (plugins pressed_instance) = [(1, During Drag)]"
    by (simp_all add: pressed_instance_def pressed_manager_def manager_eval instance_eval probe_def
        hooked_def)
  note t = lifecycle_order_per_event[where s = pressed_engine and e = ?e
      and i = pressed_instance and cfg = plain_factory, unfolded Let_def]
  have a: "\<exists>k j. hook_calls (snd (pointermove ?e pressed_engine)) =
            hook_calls pressed_engine @ take k (hooked DragStart (ordered_plugins pressed_engine))
              @ take j (hooked Drag (ordered_plugins pressed_engine)) \<and>
          k = length (hooked DragStart (ordered_plugins pressed_engine))"
    using t s(1,2) m(1) by blast
  have b: "\<exists>ps. invoked (snd (inst_run_plugins plain_factory Drag ?e
                        (pressed_instance\<lparr>ctx_lastEvent := Some ?e,
                                           dragstart_prevented := False\<rparr>))) =
           invoked pressed_instance @ ps \<and>
         ps \<noteq> [] \<and> hd ps = (1, During Drag)"
    using t i by auto
  show ?thesis
    using s m i a b by simp
qed

subsection \<open>The axis lock and the grid: proposals and private states along a chain\<close>












lemma settled_trans: "settled k s'' s' \<Longrightarrow> settled k s' s \<Longrightarrow> settled k s'' s"
  by (simp add: settled_def)












subsection \<open>Rounding to the grid\<close>










subsection \<open>Streams of events in the single-instance engine\<close>







subsection \<open>The axis \<open>none\<close>\<close>



subsection \<open>Proposals, private states and the cancellation flag in the delegated engine\<close>




















subsection \<open>Streams of moves in the delegated engine\<close>





subsection \<open>The axis \<open>none\<close> in the delegated engine\<close>



subsection \<open>A new engine starts at the origin\<close>



subsection \<open>The axis lock\<close>









subsection \<open>The grid\<close>

lemma multiple_of_scaled: "multiple_of g (of_int k * g)"
  unfolding multiple_of_def by blast







subsection \<open>The effect queue, phase by phase\<close>



















end
